theory Spec2Isabelle
  imports
    Main
    "HOL-Library.AList"
    "HOL-Library.Sublist"
    "HOL-Library.Char_ord"
    "HOL-Library.List_Lexorder"
begin

section \<open>Python values used by the FHIR conditions manager\<close>

text \<open>
  Python \<open>str\<close> is modelled by \<open>string\<close>; its order (\<open><\<close> on \<open>str\<close>) is the
  lexicographic order on the characters. \<open>str.lower\<close> and \<open>str.strip\<close> are modelled on the
  ASCII range: a character outside it is left as it is and is no white space.
\<close>

definition lower_char :: "char \<Rightarrow> char" where
  "lower_char c =
     (case map_of (zip ''ABCDEFGHIJKLMNOPQRSTUVWXYZ'' ''abcdefghijklmnopqrstuvwxyz'') c of
        Some l \<Rightarrow> l
      | None \<Rightarrow> c)"

definition lower :: "string \<Rightarrow> string" where
  "lower s = map lower_char s"

definition is_space :: "char \<Rightarrow> bool" where
  "is_space c = (let n = (of_char c :: nat) in (9 \<le> n \<and> n \<le> 13) \<or> (28 \<le> n \<and> n \<le> 32))"

definition strip :: "string \<Rightarrow> string" where
  "strip s = rev (dropWhile is_space (rev (dropWhile is_space s)))"

text \<open>\<open>p in t\<close> on two strings: \<open>p\<close> occurs in \<open>t\<close> as a contiguous substring.\<close>

fun str_in :: "string \<Rightarrow> string \<Rightarrow> bool" where
  "str_in p [] = (p = [])"
| "str_in p (c # cs) = (prefix p (c # cs) \<or> str_in p cs)"

text \<open>\<open>sep.join(parts)\<close>\<close>

fun str_join :: "string \<Rightarrow> string list \<Rightarrow> string" where
  "str_join sep [] = []"
| "str_join sep [p] = p"
| "str_join sep (p # q # ps) = p @ sep @ str_join sep (q # ps)"

text \<open>
  A Python \<open>set\<close> of strings is modelled by the list of its members, without repetition, in
  the order in which the set iterates; \<open>next(iter(s))\<close> is the head. The position that
  \<open>set.add\<close> gives a new member depends on the string hashes of the process; the model puts
  it last. \<open>set_inter\<close> is \<open>&\<close>, and an empty list is the falsy empty set.
\<close>

definition set_add :: "string list \<Rightarrow> string \<Rightarrow> string list" where
  "set_add s x = (if x \<in> set s then s else s @ [x])"

definition set_update :: "string list \<Rightarrow> string list \<Rightarrow> string list" where
  "set_update s xs = foldl set_add s xs"

definition set_inter :: "string list \<Rightarrow> string list \<Rightarrow> string list" where
  "set_inter a b = filter (\<lambda>x. x \<in> set b) a"

text \<open>The exceptions that the modelled code can raise.\<close>

datatype py_error = ValidationError | TypeError | AttributeError

subsection \<open>datetime\<close>

text \<open>
  A \<open>datetime\<close> value: its calendar fields and, for an aware value, the offset from UTC in
  microseconds (\<open>None\<close> for a naive value).
\<close>

record datetime =
  year :: nat
  month :: nat
  day :: nat
  hour :: nat
  minute :: nat
  second :: nat
  microsecond :: nat
  utcoffset :: "int option"

text \<open>\<open>datetime(y, m, d, hh, mm, ss)\<close>: a naive value with no microseconds.\<close>

definition datetime_init :: "nat \<Rightarrow> nat \<Rightarrow> nat \<Rightarrow> nat \<Rightarrow> nat \<Rightarrow> nat \<Rightarrow> datetime" where
  "datetime_init y m d hh mm ss =
     \<lparr>year = y, month = m, day = d, hour = hh, minute = mm, second = ss, microsecond = 0,
      utcoffset = None\<rparr>"

definition digit_char :: "nat \<Rightarrow> char" where
  "digit_char d = ''0123456789'' ! (d mod 10)"

fun dec :: "nat \<Rightarrow> string" where
  "dec n = (if n < 10 then [digit_char n] else dec (n div 10) @ [digit_char (n mod 10)])"

declare dec.simps [simp del]

text \<open>\<open>"%0wd" % n\<close> for a natural number.\<close>

definition fmt_d :: "nat \<Rightarrow> nat \<Rightarrow> string" where
  "fmt_d w n = (let s = dec n in replicate (w - length s) CHR ''0'' @ s)"

text \<open>The offset suffix of \<open>isoformat\<close>: sign, hours and minutes, then seconds and
  microseconds only when they are not zero.\<close>

definition format_offset :: "int \<Rightarrow> string" where
  "format_offset off =
     (let sign = (if off < 0 then ''-'' else ''+'');
          a = \<bar>off\<bar>;
          hh = a div 3600000000;
          r = a mod 3600000000;
          mm = r div 60000000;
          r2 = r mod 60000000;
          ss = r2 div 1000000;
          us = r2 mod 1000000
      in sign @ fmt_d 2 (nat hh) @ '':'' @ fmt_d 2 (nat mm)
         @ (if r2 \<noteq> 0 then '':'' @ fmt_d 2 (nat ss) else [])
         @ (if us \<noteq> 0 then ''.'' @ fmt_d 6 (nat us) else []))"

definition isoformat :: "datetime \<Rightarrow> string" where
  "isoformat d =
     fmt_d 4 (year d) @ ''-'' @ fmt_d 2 (month d) @ ''-'' @ fmt_d 2 (day d) @ ''T''
     @ fmt_d 2 (hour d) @ '':'' @ fmt_d 2 (minute d) @ '':'' @ fmt_d 2 (second d)
     @ (if microsecond d \<noteq> 0 then ''.'' @ fmt_d 6 (microsecond d) else [])
     @ (case utcoffset d of None \<Rightarrow> [] | Some off \<Rightarrow> format_offset off)"

definition is_leap :: "nat \<Rightarrow> bool" where
  "is_leap y = (y mod 4 = 0 \<and> (y mod 100 \<noteq> 0 \<or> y mod 400 = 0))"

definition days_before_year :: "nat \<Rightarrow> int" where
  "days_before_year y = (let p = int y - 1 in p * 365 + p div 4 - p div 100 + p div 400)"

definition days_before_month :: "nat \<Rightarrow> nat \<Rightarrow> int" where
  "days_before_month y m =
     [0, 0, 31, 59, 90, 120, 151, 181, 212, 243, 273, 304, 334] ! (if m \<le> 12 then m else 0)
     + (if m > 2 \<and> is_leap y then 1 else 0)"

definition toordinal :: "datetime \<Rightarrow> int" where
  "toordinal d =
     days_before_year (year d) + days_before_month (year d) (month d) + int (day d)"

text \<open>The reading of the calendar fields in microseconds, the offset ignored.\<close>

definition wall_us :: "datetime \<Rightarrow> int" where
  "wall_us d =
     ((toordinal d * 86400 + int (hour d) * 3600 + int (minute d) * 60 + int (second d))
        * 1000000) + int (microsecond d)"

text \<open>
  \<open>a - b\<close> on two datetimes, as the number of microseconds of the resulting \<open>timedelta\<close>.
  Python raises \<open>TypeError\<close> when exactly one of the two is aware. \<open>total_seconds()\<close> of the
  result is this number divided by \<open>10^6\<close>; it is compared with \<open>0\<close> and \<open>86400\<close> only, and
  those comparisons agree with the ones on the microsecond count.
\<close>

definition datetime_sub :: "datetime \<Rightarrow> datetime \<Rightarrow> py_error + int" where
  "datetime_sub a b =
     (case (utcoffset a, utcoffset b) of
        (None, None) \<Rightarrow> Inr (wall_us a - wall_us b)
      | (Some oa, Some ob) \<Rightarrow> Inr ((wall_us a - oa) - (wall_us b - ob))
      | _ \<Rightarrow> Inl TypeError)"

text \<open>\<open>datetime.now(timezone.utc)\<close>: the clock's reading, aware, with offset zero.\<close>

definition now_utc :: "datetime \<Rightarrow> datetime" where
  "now_utc t = t\<lparr>utcoffset := Some 0\<rparr>"


section \<open>condition\_model.py\<close>

text \<open>
  The pydantic classes of the FHIR input. Field names that several classes share, or that
  clash with a constant of HOL, carry the class as a prefix.
\<close>

record FhirCoding =
  system :: "string option"
  code :: "string option"
  display :: "string option"

record FhirCodeableConcept =
  concept_text :: "string option"
  coding :: "FhirCoding list"

record FhirPeriod =
  period_start :: "string option"
  period_end :: "string option"

record FhirReference =
  reference :: "string option"

record FhirIdentifier =
  identifier_system :: "string option"
  identifier_value :: "string option"

record FhirRelatedArtifact =
  artifact_type :: "string option"
  artifact_display :: "string option"

record FhirExtension =
  url :: "string option"
  valueRelatedArtifact :: "FhirRelatedArtifact option"

record FhirCondition =
  resourceType :: string
  condition_id :: string
  condition_identifier :: "FhirIdentifier list"
  clinicalStatus :: "FhirCodeableConcept option"
  condition_code :: "FhirCodeableConcept option"
  onsetPeriod :: "FhirPeriod option"
  category :: "FhirCodeableConcept list"
  subject :: "FhirReference option"
  recorder :: "FhirReference option"
  extension :: "FhirExtension list"

definition ICD10_SYSTEM :: string where
  "ICD10_SYSTEM = ''http://hl7.org/fhir/sid/icd-10-cm''"

definition SNOMED_SYSTEM :: string where
  "SNOMED_SYSTEM = ''http://snomed.info/sct''"

definition ICD9_SYSTEM :: string where
  "ICD9_SYSTEM = ''http://terminology.hl7.org/CodeSystem/ICD-9CM-diagnosiscodes''"

definition IMO_SYSTEM :: string where
  "IMO_SYSTEM = ''http://terminology.hl7.org/CodeSystem-IMO.html''"

record ConditionRecord =
  resource_id :: string
  fhir_condition :: FhirCondition
  icd10_codes :: "string list"
  snomed_codes :: "string list"
  icd9_codes :: "string list"
  imo_codes :: "string list"
  all_codes :: "string list"
  normalized_status :: string
  searchable_text :: string
  display_name :: string
  onset_start :: "datetime option"
  onset_end :: "datetime option"
  quality_flags :: "string list"
  derived_from_ids :: "string list"
  is_removed :: bool
  removal_reason :: "string option"
  removal_timestamp :: "datetime option"
  ingestion_batch :: "int option"

text \<open>The field defaults of the two classes: \<open>FhirCondition(id=rid)\<close> and
  \<open>ConditionRecord(resource_id=rid, fhir_condition=c)\<close>.\<close>

definition FhirCondition_init :: "string \<Rightarrow> FhirCondition" where
  "FhirCondition_init rid =
     \<lparr>resourceType = ''Condition'', condition_id = rid, condition_identifier = [],
      clinicalStatus = None, condition_code = None, onsetPeriod = None, category = [],
      subject = None, recorder = None, extension = []\<rparr>"

definition ConditionRecord_init :: "string \<Rightarrow> FhirCondition \<Rightarrow> ConditionRecord" where
  "ConditionRecord_init rid c =
     \<lparr>resource_id = rid, fhir_condition = c, icd10_codes = [], snomed_codes = [],
      icd9_codes = [], imo_codes = [], all_codes = [], normalized_status = ''unknown'',
      searchable_text = [], display_name = [], onset_start = None, onset_end = None,
      quality_flags = [], derived_from_ids = [], is_removed = False, removal_reason = None,
      removal_timestamp = None, ingestion_batch = None\<rparr>"

text \<open>Truth value of an \<open>Optional[str]\<close>: neither \<open>None\<close> nor empty.\<close>

definition truthy :: "string option \<Rightarrow> bool" where
  "truthy x = (case x of None \<Rightarrow> False | Some v \<Rightarrow> v \<noteq> [])"

text \<open>\<open>d.get(k, default)\<close> on a \<open>dict\<close> held as the list of its items.\<close>

definition dict_get :: "('k \<times> 'v) list \<Rightarrow> 'k \<Rightarrow> 'v \<Rightarrow> 'v" where
  "dict_get d k dflt = (case map_of d k of None \<Rightarrow> dflt | Some v \<Rightarrow> v)"

subsection \<open>Raw inputs and their validation\<close>

text \<open>
  A raw condition is what \<open>json.load\<close> returns: \<open>None\<close>, a truth value, a number, a string,
  a list or a \<open>dict\<close> with string keys (held as the list of its items). Of a float only its
  presence matters here; it is kept as mantissa and binary exponent.
\<close>

datatype json =
  JNull
| JBool bool
| JInt int
| JFloat int int
| JStr string
| JArr "json list"
| JObj "(string \<times> json) list"


















section \<open>condition\_store.py\<close>

text \<open>
  \<open>ConditionStore._records\<close> is a \<open>dict\<close> from resource id to record. It is modelled by
  the list of its items in insertion order; a lookup is \<open>map_of\<close>, and an assignment to a key
  is \<open>AList.update\<close>, which replaces the value of a key in place and puts a new key last. The
  lock serialises the methods, each of which is one function here.
\<close>

type_synonym store = "(string \<times> ConditionRecord) list"

definition add :: "store \<Rightarrow> ConditionRecord \<Rightarrow> store \<times> bool" where
  "add s record =
     (if map_of s (resource_id record) \<noteq> None then (s, False)
      else (AList.update (resource_id record) record s, True))"

definition get_by_id :: "store \<Rightarrow> string \<Rightarrow> ConditionRecord option" where
  "get_by_id s rid = map_of s rid"

definition get_all_active :: "store \<Rightarrow> ConditionRecord list" where
  "get_all_active s = filter (\<lambda>r. \<not> is_removed r) (map snd s)"

definition get_all_removed :: "store \<Rightarrow> ConditionRecord list" where
  "get_all_removed s = filter (\<lambda>r. is_removed r) (map snd s)"

text \<open>\<open>now\<close> is the reading of the clock at the call.\<close>

definition soft_remove :: "store \<Rightarrow> string \<Rightarrow> string \<Rightarrow> datetime \<Rightarrow> store \<times> bool" where
  "soft_remove s rid reason now =
     (case map_of s rid of
        None \<Rightarrow> (s, False)
      | Some record \<Rightarrow>
          if is_removed record then (s, False)
          else (AList.update rid
                  (record\<lparr>is_removed := True,
                          removal_reason := Some reason,
                          removal_timestamp := Some (now_utc now)\<rparr>) s,
                True))"

definition total_count :: "store \<Rightarrow> nat" where
  "total_count s = length s"

definition active_count :: "store \<Rightarrow> nat" where
  "active_count s = length (filter (\<lambda>r. \<not> is_removed r) (map snd s))"

definition removed_count :: "store \<Rightarrow> nat" where
  "removed_count s = length (filter (\<lambda>r. is_removed r) (map snd s))"


section \<open>monitoring.py\<close>

record BatchMetrics =
  batch_number :: int
  received :: nat
  added :: nat
  skipped_duplicate :: nat
  errored :: nat
  flags :: "(string \<times> nat) list"

record CorrectionEntry =
  timestamp :: string
  action :: string
  target :: string
  reason :: string
  records_affected :: nat

text \<open>The dashboard without its list of latency samples, which are floating-point timings.\<close>

record MonitoringDashboard =
  ingestion_batches :: "BatchMetrics list"
  quality_flags_total :: "(string \<times> nat) list"
  corrections :: "CorrectionEntry list"

definition MonitoringDashboard_init :: MonitoringDashboard where
  "MonitoringDashboard_init =
     \<lparr>ingestion_batches = [], quality_flags_total = [], corrections = []\<rparr>"


definition record_correction ::
  "MonitoringDashboard \<Rightarrow> string \<Rightarrow> string \<Rightarrow> string \<Rightarrow> nat \<Rightarrow> datetime \<Rightarrow> MonitoringDashboard" where
  "record_correction dash act tgt rsn n now =
     dash\<lparr>corrections := corrections dash @
            [\<lparr>timestamp = isoformat (now_utc now), action = act, target = tgt, reason = rsn,
              records_affected = n\<rparr>]\<rparr>"

section \<open>ingestion.py\<close>

definition ADMIN_CODE_INDICATORS :: "string list" where
  "ADMIN_CODE_INDICATORS = [''admin code'', ''*new member'', ''prompt authorization'']"

definition VAGUE_ENTRY_KEYWORDS :: "string list" where
  "VAGUE_ENTRY_KEYWORDS = [''encounter for'', ''elective procedure'', ''initial encounter'']"

definition CLINICAL_STATUS_NORMALIZATION :: "(string \<times> string) list" where
  "CLINICAL_STATUS_NORMALIZATION =
     [(''active'', ''active''),
      (''active (qualifier value)'', ''active''),
      (''resolved'', ''resolved'')]"

fun extract_codes_loop ::
  "FhirCoding list \<Rightarrow> (string \<times> string list) list \<times> string list
     \<Rightarrow> (string \<times> string list) list \<times> string list" where
  "extract_codes_loop [] st = st"
| "extract_codes_loop (c # cs) (codes, all) =
     (if truthy (code c) \<and> truthy (system c)
      then extract_codes_loop cs
             (AList.update (the (system c))
                (set_add (dict_get codes (the (system c)) []) (the (code c))) codes,
              set_add all (the (code c)))
      else extract_codes_loop cs (codes, all))"

definition extract_codes_by_system :: "FhirCondition \<Rightarrow> (string \<times> string list) list" where
  "extract_codes_by_system condition =
     (let codes = [(ICD10_SYSTEM, []), (SNOMED_SYSTEM, []), (ICD9_SYSTEM, []), (IMO_SYSTEM, [])];
          (codes', all) =
            (case condition_code condition of
               None \<Rightarrow> (codes, [])
             | Some cc \<Rightarrow> extract_codes_loop (coding cc) (codes, []))
      in AList.update ''_all'' all codes')"

definition normalize_clinical_status :: "FhirCondition \<Rightarrow> string" where
  "normalize_clinical_status condition =
     (case clinicalStatus condition of
        None \<Rightarrow> ''unknown''
      | Some cs \<Rightarrow>
          (let raw = lower (strip (case concept_text cs of None \<Rightarrow> [] | Some t \<Rightarrow> t))
           in dict_get CLINICAL_STATUS_NORMALIZATION raw (if raw \<noteq> [] then raw else ''unknown'')))"

definition coding_parts :: "FhirCoding \<Rightarrow> string list" where
  "coding_parts c =
     (if truthy (display c) then [the (display c)] else [])
     @ (if truthy (code c) then [the (code c)] else [])"

definition build_searchable_text :: "FhirCondition \<Rightarrow> string" where
  "build_searchable_text condition =
     (let parts =
        (case condition_code condition of
           None \<Rightarrow> []
         | Some cc \<Rightarrow>
             (if truthy (concept_text cc) then [the (concept_text cc)] else [])
             @ concat (map coding_parts (coding cc)))
      in lower (str_join '' '' parts))"

fun first_display :: "FhirCoding list \<Rightarrow> string option" where
  "first_display [] = None"
| "first_display (c # cs) = (if truthy (display c) then display c else first_display cs)"

definition pick_display_name :: "FhirCondition \<Rightarrow> string" where
  "pick_display_name condition =
     (case condition_code condition of
        None \<Rightarrow> ''Unknown condition''
      | Some cc \<Rightarrow>
          if truthy (concept_text cc) then the (concept_text cc)
          else (case first_display (coding cc) of
                  Some d \<Rightarrow> d
                | None \<Rightarrow> ''Unknown condition''))"

text \<open>
  \<open>datetime.fromisoformat\<close> is a parameter \<open>fromiso\<close> of the model: \<open>None\<close> stands for the
  \<open>ValueError\<close> that \<open>_parse_onset_dates\<close> catches.
\<close>

definition parse_onset_dates ::
  "(string \<Rightarrow> datetime option) \<Rightarrow> FhirCondition \<Rightarrow> datetime option \<times> datetime option" where
  "parse_onset_dates fromiso condition =
     (case onsetPeriod condition of
        None \<Rightarrow> (None, None)
      | Some p \<Rightarrow>
          ((if truthy (period_start p) then fromiso (the (period_start p)) else None),
           (if truthy (period_end p) then fromiso (the (period_end p)) else None)))"

definition detect_quality_flags ::
  "FhirCondition \<Rightarrow> (string \<times> string list) list \<Rightarrow> string \<Rightarrow> datetime option \<Rightarrow> datetime option
     \<Rightarrow> py_error + string list" where
  "detect_quality_flags condition code_sets status os oe =
     (let searchable = build_searchable_text condition;
          flags1 = (if clinicalStatus condition = None then [''missing_clinical_status''] else []);
          has_end_date = (oe \<noteq> None);
          flags2 =
            (if status = ''active'' \<and> has_end_date then flags1 @ [''inconsistent_status'']
             else if status = ''resolved'' \<and> \<not> has_end_date then flags1 @ [''inconsistent_status'']
             else flags1);
          flags3 =
            (if list_ex (\<lambda>indicator. str_in indicator searchable) ADMIN_CODE_INDICATORS
             then flags2 @ [''admin_code''] else flags2);
          flags4 =
            (if list_ex (\<lambda>keyword. str_in keyword searchable) VAGUE_ENTRY_KEYWORDS
             then flags3 @ [''vague_entry''] else flags3);
          missing = (if dict_get code_sets ICD10_SYSTEM [] = [] then [''missing_icd10''] else [])
      in case (os, oe) of
           (Some s, Some e) \<Rightarrow>
             (case datetime_sub e s of
                Inl err \<Rightarrow> Inl err
              | Inr duration \<Rightarrow>
                  Inr ((if 0 < duration \<and> duration < 86400000000
                        then flags4 @ [''short_duration''] else flags4) @ missing))
         | _ \<Rightarrow> Inr (flags4 @ missing))"

definition DERIVED_FROM_EXTENSION_URL :: string where
  "DERIVED_FROM_EXTENSION_URL =
     ''http://hl7.org/fhir/StructureDefinition/artifact-relatedArtifact''"

fun extract_derived_from_ids_loop :: "FhirExtension list \<Rightarrow> string list \<Rightarrow> string list" where
  "extract_derived_from_ids_loop [] ids = ids"
| "extract_derived_from_ids_loop (ext # exts) ids =
     (if url ext \<noteq> Some DERIVED_FROM_EXTENSION_URL then extract_derived_from_ids_loop exts ids
      else (case valueRelatedArtifact ext of
              None \<Rightarrow> extract_derived_from_ids_loop exts ids
            | Some artifact \<Rightarrow>
                if artifact_type artifact \<noteq> Some ''derived-from'' \<or> \<not> truthy (artifact_display artifact)
                then extract_derived_from_ids_loop exts ids
                else (let reference = the (artifact_display artifact)
                      in if prefix ''Condition/'' reference
                         then extract_derived_from_ids_loop exts (ids @ [drop 10 reference])
                         else extract_derived_from_ids_loop exts ids)))"

definition extract_derived_from_ids :: "FhirCondition \<Rightarrow> string list" where
  "extract_derived_from_ids condition = extract_derived_from_ids_loop (extension condition) []"

text \<open>
  \<open>FhirCondition.model_validate\<close> is the parameter \<open>validate\<close>: it returns the typed
  condition, or the \<open>ValidationError\<close> of a raw input that does not fit the schema (one
  without an \<open>id\<close>, say). The only other exception of \<open>build_condition_record\<close> is the
  \<open>TypeError\<close> of subtracting a naive onset time from an aware one, or the converse.
\<close>

definition build_condition_record ::
  "('raw \<Rightarrow> py_error + FhirCondition) \<Rightarrow> (string \<Rightarrow> datetime option) \<Rightarrow> 'raw \<Rightarrow> int
     \<Rightarrow> py_error + ConditionRecord" where
  "build_condition_record validate fromiso raw batch =
     (case validate raw of
        Inl err \<Rightarrow> Inl err
      | Inr condition \<Rightarrow>
          (let code_sets = extract_codes_by_system condition;
               (os, oe) = parse_onset_dates fromiso condition;
               status = normalize_clinical_status condition
           in case detect_quality_flags condition code_sets status os oe of
                Inl err \<Rightarrow> Inl err
              | Inr qflags \<Rightarrow>
                  Inr \<lparr>resource_id = condition_id condition,
                       fhir_condition = condition,
                       icd10_codes = dict_get code_sets ICD10_SYSTEM [],
                       snomed_codes = dict_get code_sets SNOMED_SYSTEM [],
                       icd9_codes = dict_get code_sets ICD9_SYSTEM [],
                       imo_codes = dict_get code_sets IMO_SYSTEM [],
                       all_codes = dict_get code_sets ''_all'' [],
                       normalized_status = status,
                       searchable_text = build_searchable_text condition,
                       display_name = pick_display_name condition,
                       onset_start = os,
                       onset_end = oe,
                       quality_flags = qflags,
                       derived_from_ids = extract_derived_from_ids condition,
                       is_removed = False,
                       removal_reason = None,
                       removal_timestamp = None,
                       ingestion_batch = Some batch\<rparr>))"





section \<open>corrections.py\<close>

record RemovalPredicate =
  pred_name :: string
  pred_description :: string
  pred_text_patterns :: "string list"
  pred_icd10_codes :: "string list"
  pred_snomed_codes :: "string list"
  pred_quality_flags :: "string list"

definition PREDICATES :: "(string \<times> RemovalPredicate) list" where
  "PREDICATES =
     [(''tuberculosis'',
       \<lparr>pred_name = ''tuberculosis'',
        pred_description = ''All TB-related conditions (latent TB, history of TB)'',
        pred_text_patterns = [''tuberculosis'', ''latent tb'', ''hx of latent tb''],
        pred_icd10_codes = [''Z22.7'', ''Z86.15''],
        pred_snomed_codes = [''11999007'', ''428934008''],
        pred_quality_flags = []\<rparr>),
      (''admin_codes'',
       \<lparr>pred_name = ''admin_codes'',
        pred_description = ''Non-clinical administrative entries'',
        pred_text_patterns = [],
        pred_icd10_codes = [],
        pred_snomed_codes = [],
        pred_quality_flags = [''admin_code'']\<rparr>)]"

definition matches_predicate :: "ConditionRecord \<Rightarrow> RemovalPredicate \<Rightarrow> bool" where
  "matches_predicate record pred =
     (if list_ex (\<lambda>pattern. str_in pattern (searchable_text record)) (pred_text_patterns pred)
      then True
      else if pred_icd10_codes pred \<noteq> [] \<and> set_inter (icd10_codes record) (pred_icd10_codes pred) \<noteq> []
      then True
      else if pred_snomed_codes pred \<noteq> [] \<and> set_inter (snomed_codes record) (pred_snomed_codes pred) \<noteq> []
      then True
      else list_ex (\<lambda>flag. flag \<in> set (quality_flags record)) (pred_quality_flags pred))"

text \<open>The result dictionary of a removal; \<open>removed_conditions\<close> is absent from the failure
  results.\<close>

record RemovalResult =
  success :: bool
  message :: string
  records_removed :: nat
  removed_conditions :: "string list option"
  active_remaining :: nat

definition no_match :: "store \<Rightarrow> string \<Rightarrow> RemovalResult" where
  "no_match s tgt =
     \<lparr>success = False,
      message = ''No active conditions found matching \"'' @ tgt @ ''\".'',
      records_removed = 0, removed_conditions = None, active_remaining = active_count s\<rparr>"

definition already_removed :: "store \<Rightarrow> string \<Rightarrow> RemovalResult" where
  "already_removed s tgt =
     \<lparr>success = False,
      message = ''Condition \"'' @ tgt @ ''\" is already removed.'',
      records_removed = 0, removed_conditions = None, active_remaining = active_count s\<rparr>"

text \<open>
  The loop of \<open>_apply_removals\<close>. \<open>clock n\<close> is the reading of the clock at the \<open>n\<close>-th
  step of the operation.
\<close>

fun apply_removals_loop ::
  "ConditionRecord list \<Rightarrow> string \<Rightarrow> (nat \<Rightarrow> datetime) \<Rightarrow> nat \<Rightarrow> store \<Rightarrow> string list
     \<Rightarrow> store \<times> string list" where
  "apply_removals_loop [] rsn clock n s removed = (s, removed)"
| "apply_removals_loop (record # rest) rsn clock n s removed =
     (case soft_remove s (resource_id record) rsn (clock n) of
        (s', True) \<Rightarrow>
          apply_removals_loop rest rsn clock (n + 1) s'
            (removed @ [display_name record @ '' ('' @ take 8 (resource_id record) @ '')''])
      | (s', False) \<Rightarrow> apply_removals_loop rest rsn clock (n + 1) s' removed)"

definition apply_removals ::
  "store \<Rightarrow> MonitoringDashboard \<Rightarrow> (nat \<Rightarrow> datetime) \<Rightarrow> ConditionRecord list \<Rightarrow> string \<Rightarrow> string
     \<Rightarrow> string \<Rightarrow> RemovalResult \<times> store \<times> MonitoringDashboard" where
  "apply_removals s dash clock matched act tgt rsn =
     (if matched = [] then (no_match s tgt, s, dash)
      else (let (s', removed) = apply_removals_loop matched rsn clock 0 s [];
                dash' = record_correction dash act tgt rsn (length removed) (clock (length matched))
            in (\<lparr>success = True,
                 message = ''Removed '' @ dec (length removed) @ '' condition(s). ''
                           @ dec (active_count s') @ '' active remaining.'',
                 records_removed = length removed,
                 removed_conditions = Some removed,
                 active_remaining = active_count s'\<rparr>, s', dash')))"

definition remove_by_text ::
  "store \<Rightarrow> MonitoringDashboard \<Rightarrow> (nat \<Rightarrow> datetime) \<Rightarrow> string \<Rightarrow> string
     \<Rightarrow> RemovalResult \<times> store \<times> MonitoringDashboard" where
  "remove_by_text s dash clock tgt rsn =
     (let target_lower = lower tgt;
          matched = filter (\<lambda>r. str_in target_lower (searchable_text r)) (get_all_active s)
      in apply_removals s dash clock matched ''remove_by_text'' tgt rsn)"

definition remove_by_code ::
  "store \<Rightarrow> MonitoringDashboard \<Rightarrow> (nat \<Rightarrow> datetime) \<Rightarrow> string \<Rightarrow> string
     \<Rightarrow> RemovalResult \<times> store \<times> MonitoringDashboard" where
  "remove_by_code s dash clock cd rsn =
     (let matched = filter (\<lambda>r. cd \<in> set (all_codes r)) (get_all_active s)
      in apply_removals s dash clock matched ''remove_by_code'' cd rsn)"

definition remove_by_id ::
  "store \<Rightarrow> MonitoringDashboard \<Rightarrow> (nat \<Rightarrow> datetime) \<Rightarrow> string \<Rightarrow> string
     \<Rightarrow> RemovalResult \<times> store \<times> MonitoringDashboard" where
  "remove_by_id s dash clock rid rsn =
     (case get_by_id s rid of
        None \<Rightarrow> (no_match s rid, s, dash)
      | Some record \<Rightarrow>
          if is_removed record then (already_removed s rid, s, dash)
          else apply_removals s dash clock [record] ''remove_by_id'' rid rsn)"

definition remove_by_predicate ::
  "store \<Rightarrow> MonitoringDashboard \<Rightarrow> (nat \<Rightarrow> datetime) \<Rightarrow> string \<Rightarrow> string
     \<Rightarrow> RemovalResult \<times> store \<times> MonitoringDashboard" where
  "remove_by_predicate s dash clock predicate_name rsn =
     (case map_of PREDICATES predicate_name of
        None \<Rightarrow>
          (\<lparr>success = False,
            message = ''Unknown predicate \"'' @ predicate_name @ ''\". Available: ''
                      @ str_join '', '' (sort (map fst PREDICATES)),
            records_removed = 0, removed_conditions = None,
            active_remaining = active_count s\<rparr>, s, dash)
      | Some pred \<Rightarrow>
          (let matched = filter (\<lambda>r. matches_predicate r pred) (get_all_active s)
           in apply_removals s dash clock matched ''remove_by_predicate'' predicate_name rsn))"

section \<open>retrieval.py\<close>

record ConditionGroup =
  canonical_code :: string
  code_system_label :: string
  group_display_name :: string
  group_all_codes :: "(string \<times> string list) list"
  statuses :: "string list"
  encounter_count :: nat
  earliest_onset :: "string option"
  latest_onset :: "string option"
  group_quality_flags :: "string list"
  has_overlapping_dates :: bool
  consolidated_record_count :: nat
  derived_from_source_count :: nat

text \<open>\<open>ConditionGroup(canonical_code=.., code_system_label=.., display_name=.., all_codes=..)\<close>\<close>

definition ConditionGroup_init ::
  "string \<Rightarrow> string \<Rightarrow> string \<Rightarrow> (string \<times> string list) list \<Rightarrow> ConditionGroup" where
  "ConditionGroup_init cd label name codes =
     \<lparr>canonical_code = cd, code_system_label = label, group_display_name = name,
      group_all_codes = codes, statuses = [], encounter_count = 0, earliest_onset = None,
      latest_onset = None, group_quality_flags = [], has_overlapping_dates = False,
      consolidated_record_count = 0, derived_from_source_count = 0\<rparr>"

definition canonical_code_of :: "ConditionRecord \<Rightarrow> string \<times> string" where
  "canonical_code_of record =
     (if icd10_codes record \<noteq> [] then (hd (icd10_codes record), ''ICD-10'')
      else if snomed_codes record \<noteq> [] then (hd (snomed_codes record), ''SNOMED'')
      else if icd9_codes record \<noteq> [] then (hd (icd9_codes record), ''ICD-9'')
      else (lower (display_name record), ''text''))"

definition code_labels :: "ConditionRecord \<Rightarrow> (string \<times> string list) list" where
  "code_labels record =
     (if icd10_codes record \<noteq> [] then [(''ICD-10'', icd10_codes record)] else [])
     @ (if snomed_codes record \<noteq> [] then [(''SNOMED'', snomed_codes record)] else [])
     @ (if icd9_codes record \<noteq> [] then [(''ICD-9'', icd9_codes record)] else [])
     @ (if imo_codes record \<noteq> [] then [(''IMO'', imo_codes record)] else [])"

definition matches_text :: "ConditionRecord \<Rightarrow> string \<Rightarrow> bool" where
  "matches_text record query = str_in (lower query) (searchable_text record)"

definition matches_code :: "ConditionRecord \<Rightarrow> string \<Rightarrow> string option \<Rightarrow> bool" where
  "matches_code record cd code_system =
     (if truthy code_system
      then (let system_map =
                  [(''icd10'', icd10_codes record),
                   (''icd-10'', icd10_codes record),
                   (''snomed'', snomed_codes record),
                   (''icd9'', icd9_codes record),
                   (''icd-9'', icd9_codes record),
                   (''imo'', imo_codes record)]
            in case map_of system_map (lower (the code_system)) of
                 Some tgt \<Rightarrow> cd \<in> set tgt
               | None \<Rightarrow> cd \<in> set (all_codes record))
      else cd \<in> set (all_codes record))"

definition matches_status :: "ConditionRecord \<Rightarrow> string \<Rightarrow> bool" where
  "matches_status record status = (normalized_status record = lower status)"

text \<open>The \<open>for i in range(1, len(sorted_periods))\<close> loop, from index \<open>i\<close> on.\<close>

function overlap_loop :: "(string \<times> string) list \<Rightarrow> nat \<Rightarrow> bool" where
  "overlap_loop sorted_periods i =
     (if i < length sorted_periods
      then (let previous_end = snd (sorted_periods ! (i - 1));
                current_start = fst (sorted_periods ! i)
            in if current_start < previous_end then True
               else overlap_loop sorted_periods (i + 1))
      else False)"
  by pat_completeness auto
termination
  by (relation "measure (\<lambda>(ps, i). length ps - i)") auto

declare overlap_loop.simps [simp del]

text \<open>\<open>sorted(onset_periods, key=lambda p: p[0])\<close> is the stable \<open>sort_key fst\<close>.\<close>

definition detect_overlapping_onset_periods :: "(string \<times> string) list \<Rightarrow> bool" where
  "detect_overlapping_onset_periods onset_periods =
     overlap_loop (sort_key fst onset_periods) 1"

definition merge_code_labels ::
  "(string \<times> string list) list \<Rightarrow> (string \<times> string list) list \<Rightarrow> (string \<times> string list) list" where
  "merge_code_labels acc labels =
     foldl (\<lambda>ac (sys_label, codes). AList.update sys_label (set_update (dict_get ac sys_label []) codes) ac)
       acc labels"

text \<open>One pass of the first loop of \<open>group_by_canonical_code\<close>; the state is the two
  dictionaries \<open>groups\<close> and \<open>onset_periods_by_group\<close>.\<close>

definition group_step ::
  "(string \<times> ConditionGroup) list \<times> (string \<times> (string \<times> string) list) list \<Rightarrow> ConditionRecord
     \<Rightarrow> (string \<times> ConditionGroup) list \<times> (string \<times> (string \<times> string) list) list" where
  "group_step st record =
     (let (groups, periods) = st;
          (cd, label) = canonical_code_of record;
          fresh = (map_of groups cd = None);
          groups1 = (if fresh
                     then AList.update cd
                            (ConditionGroup_init cd label (display_name record) (code_labels record))
                            groups
                     else groups);
          periods1 = (if fresh then AList.update cd [] periods else periods);
          g = the (map_of groups1 cd);
          onset_str = map_option (\<lambda>d. take 10 (isoformat d)) (onset_start record);
          g' = g\<lparr>encounter_count := encounter_count g + 1,
                 statuses := set_add (statuses g) (normalized_status record),
                 group_quality_flags := set_update (group_quality_flags g) (quality_flags record),
                 consolidated_record_count :=
                   (if derived_from_ids record \<noteq> [] then consolidated_record_count g + 1
                    else consolidated_record_count g),
                 derived_from_source_count :=
                   (if derived_from_ids record \<noteq> []
                    then derived_from_source_count g + length (derived_from_ids record)
                    else derived_from_source_count g),
                 group_all_codes := merge_code_labels (group_all_codes g) (code_labels record),
                 earliest_onset :=
                   (case onset_str of
                      None \<Rightarrow> earliest_onset g
                    | Some os \<Rightarrow>
                        (case earliest_onset g of
                           None \<Rightarrow> Some os
                         | Some e \<Rightarrow> if os < e then Some os else Some e)),
                 latest_onset :=
                   (case onset_str of
                      None \<Rightarrow> latest_onset g
                    | Some os \<Rightarrow>
                        (case latest_onset g of
                           None \<Rightarrow> Some os
                         | Some l \<Rightarrow> if os > l then Some os else Some l))\<rparr>;
          groups2 = AList.update cd g' groups1;
          periods2 =
            (case (onset_start record, onset_end record) of
               (Some a, Some b) \<Rightarrow>
                 AList.update cd (the (map_of periods1 cd) @ [(isoformat a, isoformat b)]) periods1
             | _ \<Rightarrow> periods1)
      in (groups2, periods2))"

text \<open>The second loop: a group with two periods or more, two of which overlap, is flagged.\<close>

definition flag_overlaps ::
  "(string \<times> ConditionGroup) list \<Rightarrow> (string \<times> (string \<times> string) list) list
     \<Rightarrow> (string \<times> ConditionGroup) list" where
  "flag_overlaps groups periods =
     map (\<lambda>(cd, g).
            (let ps = the (map_of periods cd)
             in if length ps \<ge> 2 \<and> detect_overlapping_onset_periods ps
                then (cd, g\<lparr>has_overlapping_dates := True\<rparr>)
                else (cd, g)))
       groups"

text \<open>\<open>sorted(.., key=encounter_count, reverse=True)\<close> keeps the order of groups of equal
  count, as the stable sort on the negated count does.\<close>

definition group_by_canonical_code :: "ConditionRecord list \<Rightarrow> ConditionGroup list" where
  "group_by_canonical_code records =
     (let (groups, periods) = foldl group_step ([], []) records
      in sort_key (\<lambda>g. - int (encounter_count g)) (map snd (flag_overlaps groups periods)))"

text \<open>The filters of \<open>retrieve\<close>, which give the candidates that are then grouped.\<close>

definition filter_candidates ::
  "store \<Rightarrow> string option \<Rightarrow> string option \<Rightarrow> string option \<Rightarrow> string option
     \<Rightarrow> ConditionRecord list" where
  "filter_candidates s query cd code_system status =
     (let candidates = get_all_active s;
          candidates1 = (if truthy query
                         then filter (\<lambda>r. matches_text r (the query)) candidates
                         else candidates);
          candidates2 = (if truthy cd
                         then filter (\<lambda>r. matches_code r (the cd) code_system) candidates1
                         else candidates1);
          candidates3 = (if truthy status
                         then filter (\<lambda>r. matches_status r (the status)) candidates2
                         else candidates2)
      in candidates3)"


section \<open>Notions used in the statements\<close>

text \<open>
  What the methods of the store keep true of \<open>_records\<close>: the keys are pairwise different,
  and every record is stored under its own \<open>resource_id\<close>.
\<close>

definition store_wf :: "store \<Rightarrow> bool" where
  "store_wf s = (distinct (map fst s) \<and> list_all (\<lambda>(k, r). resource_id r = k) s)"

text \<open>The criteria of the predicate \<open>tuberculosis\<close>, written out.\<close>

definition tuberculosis_criteria :: "ConditionRecord \<Rightarrow> bool" where
  "tuberculosis_criteria r =
     (str_in ''tuberculosis'' (searchable_text r) \<or> str_in ''latent tb'' (searchable_text r) \<or>
      ''Z22.7'' \<in> set (icd10_codes r) \<or> ''Z86.15'' \<in> set (icd10_codes r) \<or>
      ''11999007'' \<in> set (snomed_codes r) \<or> ''428934008'' \<in> set (snomed_codes r))"

text \<open>
  The key under which a record is grouped, and the pairs of ISO strings that the records
  with both onset dates contribute, in the order of the records.
\<close>

definition group_key :: "ConditionRecord \<Rightarrow> string" where
  "group_key r = fst (canonical_code_of r)"

definition onset_pair :: "ConditionRecord \<Rightarrow> (string \<times> string) list" where
  "onset_pair r =
     (case (onset_start r, onset_end r) of
        (Some a, Some b) \<Rightarrow> [(isoformat a, isoformat b)]
      | _ \<Rightarrow> [])"

definition member_periods :: "ConditionRecord list \<Rightarrow> (string \<times> string) list" where
  "member_periods rs = concat (map onset_pair rs)"

text \<open>
  The overlap of onset periods read in time: the instant of a \<open>datetime\<close> is its reading
  less its offset from UTC; the periods are those of the records with both onset dates;
  and, the periods sorted by the instant of their start, some period starts before the
  period just before it ends.
\<close>

definition instant_us :: "datetime \<Rightarrow> int" where
  "instant_us d = wall_us d - (case utcoffset d of None \<Rightarrow> 0 | Some off \<Rightarrow> off)"

definition onset_times :: "ConditionRecord list \<Rightarrow> (datetime \<times> datetime) list" where
  "onset_times rs =
     concat (map (\<lambda>r. case (onset_start r, onset_end r) of
                          (Some a, Some b) \<Rightarrow> [(a, b)]
                        | _ \<Rightarrow> []) rs)"

definition overlap_in_time :: "(datetime \<times> datetime) list \<Rightarrow> bool" where
  "overlap_in_time ps =
     (let sp = sort_key (\<lambda>p. instant_us (fst p)) ps
      in list_ex (\<lambda>i. instant_us (fst (sp ! i)) < instant_us (snd (sp ! (i - 1))))
           [1..<length sp])"


text \<open>The list \<open>[f]\<close> when \<open>b\<close> holds, the empty list otherwise.\<close>

definition flag_if :: "bool \<Rightarrow> string \<Rightarrow> string list" where
  "flag_if b f = (if b then [f] else [])"

section \<open>Inputs of the worked examples\<close>

text \<open>
  For the examples the raw inputs are conditions that are typed already; \<open>None\<close> is a raw
  input that the schema rejects. The date parser of the examples knows the few strings
  that they use.
\<close>

definition validate_typed :: "FhirCondition option \<Rightarrow> py_error + FhirCondition" where
  "validate_typed raw = (case raw of None \<Rightarrow> Inl ValidationError | Some c \<Rightarrow> Inr c)"

definition sample_fromiso :: "string \<Rightarrow> datetime option" where
  "sample_fromiso =
     map_of [(''2020-01-01'', datetime_init 2020 1 1 0 0 0),
             (''2020-01-01T01:00:00'', datetime_init 2020 1 1 1 0 0),
             (''2020-01-02T01:00:00'', datetime_init 2020 1 2 1 0 0),
             (''2020-03-01'', datetime_init 2020 3 1 0 0 0),
             (''2020-06-01'', datetime_init 2020 6 1 0 0 0),
             (''2020-09-01'', datetime_init 2020 9 1 0 0 0)]"

definition sample_condition ::
  "string \<Rightarrow> string option \<Rightarrow> string option \<Rightarrow> FhirCoding list \<Rightarrow> string option \<Rightarrow> string option
     \<Rightarrow> FhirCondition" where
  "sample_condition rid status txt codings start end =
     (FhirCondition_init rid)
       \<lparr>clinicalStatus := map_option (\<lambda>t. \<lparr>concept_text = Some t, coding = []\<rparr>) status,
        condition_code := Some \<lparr>concept_text = txt, coding = codings\<rparr>,
        onsetPeriod := Some \<lparr>period_start = start, period_end = end\<rparr>\<rparr>"

text \<open>A clock that reads the same time at every step.\<close>

definition fixed_clock :: "datetime \<Rightarrow> nat \<Rightarrow> datetime" where
  "fixed_clock t n = t"

text \<open>
  Two records of the same code with onsets at different offsets from UTC: from 20:00 to
  22:00 at offset zero, and from 23:00 to 02:00 of the next day at offset +05:00, which is
  from 18:00 to 21:00 at offset zero.
\<close>

definition sample_zone_1 :: ConditionRecord where
  "sample_zone_1 =
     (ConditionRecord_init ''z1'' (FhirCondition_init ''z1''))
       \<lparr>icd10_codes := [''J45.909''], all_codes := [''J45.909''],
        onset_start := Some ((datetime_init 2020 1 1 20 0 0)\<lparr>utcoffset := Some 0\<rparr>),
        onset_end := Some ((datetime_init 2020 1 1 22 0 0)\<lparr>utcoffset := Some 0\<rparr>)\<rparr>"

definition sample_zone_2 :: ConditionRecord where
  "sample_zone_2 =
     (ConditionRecord_init ''z2'' (FhirCondition_init ''z2''))
       \<lparr>icd10_codes := [''J45.909''], all_codes := [''J45.909''],
        onset_start := Some ((datetime_init 2020 1 1 23 0 0)\<lparr>utcoffset := Some 18000000000\<rparr>),
        onset_end := Some ((datetime_init 2020 1 2 2 0 0)\<lparr>utcoffset := Some 18000000000\<rparr>)\<rparr>"

text \<open>
  Two records of the same code with onsets at different offsets from UTC: from 10:00 to
  11:00 at offset -05:00, which is from 15:00 to 16:00 at offset zero, and from 10:30 to
  10:45 at offset zero.
\<close>

definition sample_zone_3 :: ConditionRecord where
  "sample_zone_3 =
     (ConditionRecord_init ''z3'' (FhirCondition_init ''z3''))
       \<lparr>icd10_codes := [''J45.909''], all_codes := [''J45.909''],
        onset_start := Some ((datetime_init 2020 1 1 10 0 0)\<lparr>utcoffset := Some (- 18000000000)\<rparr>),
        onset_end := Some ((datetime_init 2020 1 1 11 0 0)\<lparr>utcoffset := Some (- 18000000000)\<rparr>)\<rparr>"

definition sample_zone_4 :: ConditionRecord where
  "sample_zone_4 =
     (ConditionRecord_init ''z4'' (FhirCondition_init ''z4''))
       \<lparr>icd10_codes := [''J45.909''], all_codes := [''J45.909''],
        onset_start := Some ((datetime_init 2020 1 1 10 30 0)\<lparr>utcoffset := Some 0\<rparr>),
        onset_end := Some ((datetime_init 2020 1 1 10 45 0)\<lparr>utcoffset := Some 0\<rparr>)\<rparr>"

text \<open>Two records of the same ICD-10 code whose onset periods overlap.\<close>

definition sample_asthma_1 :: ConditionRecord where
  "sample_asthma_1 =
     (ConditionRecord_init ''a1'' (FhirCondition_init ''a1''))
       \<lparr>icd10_codes := [''J45.909''], all_codes := [''J45.909''],
        normalized_status := ''active'', display_name := ''Asthma'',
        onset_start := Some (datetime_init 2020 1 1 0 0 0),
        onset_end := Some (datetime_init 2020 6 1 0 0 0)\<rparr>"

definition sample_asthma_2 :: ConditionRecord where
  "sample_asthma_2 =
     (ConditionRecord_init ''a2'' (FhirCondition_init ''a2''))
       \<lparr>icd10_codes := [''J45.909''], all_codes := [''J45.909''],
        normalized_status := ''resolved'', display_name := ''Asthma, unspecified'',
        onset_start := Some (datetime_init 2020 3 1 0 0 0),
        onset_end := Some (datetime_init 2020 9 1 0 0 0)\<rparr>"

section \<open>The condition store\<close>

lemma update_new_append: "map_of s k = None \<Longrightarrow> AList.update k r s = s @ [(k, r)]"
  by (induction s) (auto split: if_splits)

lemma filter_update_gain:
  "map_of s k = Some r \<Longrightarrow> \<not> P r \<Longrightarrow> P r' \<Longrightarrow>
   length (filter P (map snd (AList.update k r' s))) = Suc (length (filter P (map snd s)))"
  by (induction s) (auto split: if_splits)

lemma update_keys_same: "map_of s k = Some r \<Longrightarrow> map fst (AList.update k r' s) = map fst s"
  by (induction s) (auto split: if_splits)

text \<open>
  C8. \<open>add\<close> returns true exactly when the resource id of the record is not yet a key of the
  store. In that case the record is put last under its id; otherwise the store is returned
  as it was. Hence, of two records with the same fresh id added one after the other, the
  first is stored and stays as it is, the second call returns false and changes nothing,
  and the active count has grown by one (the first record being active, as every built
  record is).
\<close>

theorem add_first_write_wins:
  "(snd (add s r) \<longleftrightarrow> get_by_id s (resource_id r) = None) \<and>
   (get_by_id s (resource_id r) = None \<longrightarrow>
      fst (add s r) = s @ [(resource_id r, r)] \<and>
      get_by_id (fst (add s r)) (resource_id r) = Some r) \<and>
   (get_by_id s (resource_id r) \<noteq> None \<longrightarrow> fst (add s r) = s) \<and>
   (resource_id r2 = resource_id r \<and> get_by_id s (resource_id r) = None \<and> \<not> is_removed r \<longrightarrow>
      snd (add s r) \<and> \<not> snd (add (fst (add s r)) r2) \<and>
      fst (add (fst (add s r)) r2) = fst (add s r) \<and>
      get_by_id (fst (add (fst (add s r)) r2)) (resource_id r) = Some r \<and>
      active_count (fst (add (fst (add s r)) r2)) = active_count s + 1)"
proof -
  have present: "add s r = (s, False)" if "map_of s (resource_id r) \<noteq> None"
    using that by (simp add: add_def)
  have fresh: "add s r = (s @ [(resource_id r, r)], True)" if "map_of s (resource_id r) = None"
    using that by (simp add: add_def update_new_append)
  have look: "map_of (s @ [(resource_id r, r)]) (resource_id r) = Some r"
    if "map_of s (resource_id r) = None"
    using that by (simp add: map_add_def)
  have again: "add (s @ [(resource_id r, r)]) r2 = (s @ [(resource_id r, r)], False)"
    if "map_of s (resource_id r) = None" "resource_id r2 = resource_id r"
    using that look by (simp add: add_def)
  show ?thesis
    using present fresh look again
    by (cases "map_of s (resource_id r)") (auto simp: get_by_id_def active_count_def)
qed

theorem add_first_write_wins_witness:
  "get_by_id [] (resource_id (ConditionRecord_init ''c1'' (FhirCondition_init ''c1''))) = None \<and>
   \<not> is_removed (ConditionRecord_init ''c1'' (FhirCondition_init ''c1'')) \<and>
   snd (add [] (ConditionRecord_init ''c1'' (FhirCondition_init ''c1''))) \<and>
   \<not> snd (add (fst (add [] (ConditionRecord_init ''c1'' (FhirCondition_init ''c1''))))
            ((ConditionRecord_init ''c1'' (FhirCondition_init ''c1''))\<lparr>display_name := ''x''\<rparr>)) \<and>
   active_count
     (fst (add (fst (add [] (ConditionRecord_init ''c1'' (FhirCondition_init ''c1''))))
            ((ConditionRecord_init ''c1'' (FhirCondition_init ''c1''))\<lparr>display_name := ''x''\<rparr>)))
     = active_count [] + 1"
proof -
  let ?r = "ConditionRecord_init ''c1'' (FhirCondition_init ''c1'')"
  have h: "resource_id (?r\<lparr>display_name := ''x''\<rparr>) = resource_id ?r"
    "get_by_id [] (resource_id ?r) = None" "\<not> is_removed ?r"
    by (simp_all add: ConditionRecord_init_def get_by_id_def)
  show ?thesis
    using add_first_write_wins [of "[]" ?r "?r\<lparr>display_name := ''x''\<rparr>"] h by blast
qed

text \<open>
  C9. \<open>soft_remove\<close> returns true exactly when the id is the key of a record that is not
  removed. Then that record, and no other, becomes removed with the given reason and a
  time stamp whose offset from UTC is zero, the removed count grows by one, and a second
  call on the same id returns false and leaves the store as it is. When it returns false
  (unknown id, or a record already removed) the store is unchanged.
\<close>

theorem soft_remove_transition:
  assumes "soft_remove s rid rsn now = (s', ok)"
  shows "(ok \<longleftrightarrow> (\<exists>r. get_by_id s rid = Some r \<and> \<not> is_removed r)) \<and>
         (ok \<longrightarrow>
            (\<exists>r. get_by_id s rid = Some r \<and>
                 get_by_id s' rid =
                   Some (r\<lparr>is_removed := True, removal_reason := Some rsn,
                           removal_timestamp := Some (now_utc now)\<rparr>)) \<and>
            utcoffset (now_utc now) = Some 0 \<and>
            (\<forall>k. k \<noteq> rid \<longrightarrow> get_by_id s' k = get_by_id s k) \<and>
            map fst s' = map fst s \<and>
            removed_count s' = removed_count s + 1 \<and>
            soft_remove s' rid rsn2 now2 = (s', False)) \<and>
         (\<not> ok \<longrightarrow> s' = s \<and> removed_count s' = removed_count s)"
proof (cases "map_of s rid")
  case None
  with assms show ?thesis by (auto simp: soft_remove_def get_by_id_def)
next
  case (Some r)
  show ?thesis
  proof (cases "is_removed r")
    case True
    with Some assms show ?thesis by (auto simp: soft_remove_def get_by_id_def)
  next
    case False
    let ?r' = "r\<lparr>is_removed := True, removal_reason := Some rsn,
                    removal_timestamp := Some (now_utc now)\<rparr>"
    from Some False assms have s': "s' = AList.update rid ?r' s" and ok: "ok"
      by (auto simp: soft_remove_def)
    have cnt: "removed_count s' = removed_count s + 1"
      unfolding removed_count_def s' using filter_update_gain [OF Some, of is_removed ?r'] False
      by simp
    have keys: "map fst s' = map fst s"
      unfolding s' using Some by (rule update_keys_same)
    have again: "soft_remove s' rid rsn2 now2 = (s', False)"
      unfolding s' by (simp add: soft_remove_def update_conv')
    show ?thesis using Some False ok cnt keys again
      by (auto simp: get_by_id_def s' update_conv' now_utc_def)
  qed
qed

theorem soft_remove_transition_witness:
  "(\<exists>s'. soft_remove [(''c1'', ConditionRecord_init ''c1'' (FhirCondition_init ''c1''))] ''c1''
            ''wrong'' (datetime_init 2024 5 1 12 0 0) = (s', True) \<and>
          removed_count s' = 1 \<and>
          soft_remove s' ''c1'' ''again'' (datetime_init 2024 5 1 12 0 1) = (s', False))"
proof -
  let ?s = "[(''c1'', ConditionRecord_init ''c1'' (FhirCondition_init ''c1''))]"
  let ?t = "datetime_init 2024 5 1 12 0 0"
  obtain s' ok where eq: "soft_remove ?s ''c1'' ''wrong'' ?t = (s', ok)"
    by (cases "soft_remove ?s ''c1'' ''wrong'' ?t") blast
  have act: "\<exists>r. get_by_id ?s ''c1'' = Some r \<and> \<not> is_removed r"
    by (simp add: get_by_id_def ConditionRecord_init_def)
  have cnt0: "removed_count ?s = 0"
    by (simp add: removed_count_def ConditionRecord_init_def)
  from soft_remove_transition [OF eq, of "''again''" "datetime_init 2024 5 1 12 0 1"] act cnt0 eq
  show ?thesis
    by auto
qed


section \<open>Building a record\<close>

lemma flag_if_snoc: "(if b then xs @ [a] else xs) = xs @ flag_if b a"
  by (simp add: flag_if_def)

lemma flag_if_elif: "(if a then xs @ [x] else if b then xs @ [x] else xs) = xs @ flag_if (a \<or> b) x"
  by (simp add: flag_if_def)

lemma flag_if_elif2: "(if a then xs @ [x] else xs @ flag_if b x) = xs @ flag_if (a \<or> b) x"
  by (simp add: flag_if_def)

lemma flag_if_start: "(if b then [x] else []) = flag_if b x"
  by (simp add: flag_if_def)

lemma set_flag_if: "x \<in> set (flag_if b f) \<longleftrightarrow> b \<and> x = f"
  by (auto simp: flag_if_def)

lemma distinct_flag_if: "distinct (flag_if b f)"
  by (simp add: flag_if_def)

lemma distinct_flag_if_append:
  "distinct (flag_if b f @ xs) \<longleftrightarrow> (b \<longrightarrow> f \<notin> set xs) \<and> distinct xs"
  by (auto simp: flag_if_def)

text \<open>The flags that \<open>_detect_quality_flags\<close> returns, one optional entry per check.\<close>

lemma detect_quality_flags_shape:
  assumes "detect_quality_flags c cs st os oe = Inr fl"
  shows "fl = flag_if (clinicalStatus c = None) ''missing_clinical_status''
            @ flag_if ((st = ''active'' \<and> oe \<noteq> None) \<or> (st = ''resolved'' \<and> oe = None))
                ''inconsistent_status''
            @ flag_if (list_ex (\<lambda>i. str_in i (build_searchable_text c)) ADMIN_CODE_INDICATORS)
                ''admin_code''
            @ flag_if (list_ex (\<lambda>k. str_in k (build_searchable_text c)) VAGUE_ENTRY_KEYWORDS)
                ''vague_entry''
            @ flag_if (\<exists>s e d. os = Some s \<and> oe = Some e \<and> datetime_sub e s = Inr d \<and>
                                0 < d \<and> d < 86400000000) ''short_duration''
            @ flag_if (dict_get cs ICD10_SYSTEM [] = []) ''missing_icd10''"
proof -
  let ?pre = "flag_if (clinicalStatus c = None) ''missing_clinical_status''
            @ flag_if ((st = ''active'' \<and> oe \<noteq> None) \<or> (st = ''resolved'' \<and> oe = None))
                ''inconsistent_status''
            @ flag_if (list_ex (\<lambda>i. str_in i (build_searchable_text c)) ADMIN_CODE_INDICATORS)
                ''admin_code''
            @ flag_if (list_ex (\<lambda>k. str_in k (build_searchable_text c)) VAGUE_ENTRY_KEYWORDS)
                ''vague_entry''"
  let ?miss = "flag_if (dict_get cs ICD10_SYSTEM [] = []) ''missing_icd10''"
  have eq: "detect_quality_flags c cs st os oe =
         (case (os, oe) of
           (Some s, Some e) \<Rightarrow>
             (case datetime_sub e s of
                Inl err \<Rightarrow> Inl err
              | Inr d \<Rightarrow> Inr (?pre @ flag_if (0 < d \<and> d < 86400000000) ''short_duration'' @ ?miss))
         | _ \<Rightarrow> Inr (?pre @ ?miss))"
    unfolding detect_quality_flags_def Let_def flag_if_elif flag_if_snoc flag_if_elif2 flag_if_start
    by (simp split: option.splits sum.splits)
  show ?thesis
  proof (cases os)
    case None
    with assms eq show ?thesis by (simp add: flag_if_def)
  next
    case (Some s)
    note s = this
    show ?thesis
    proof (cases oe)
      case None
      with assms eq s show ?thesis by (simp add: flag_if_def)
    next
      case (Some e)
      with assms eq s obtain d where d: "datetime_sub e s = Inr d"
        by (cases "datetime_sub e s") auto
      with assms eq s Some show ?thesis
        by (simp add: flag_if_def)
    qed
  qed
qed

lemma build_condition_record_Inr:
  assumes "build_condition_record validate fromiso raw bn = Inr r"
  obtains c where "validate raw = Inr c"
    and "r = \<lparr>resource_id = condition_id c,
                       fhir_condition = c,
                       icd10_codes = dict_get (extract_codes_by_system c) ICD10_SYSTEM [],
                       snomed_codes = dict_get (extract_codes_by_system c) SNOMED_SYSTEM [],
                       icd9_codes = dict_get (extract_codes_by_system c) ICD9_SYSTEM [],
                       imo_codes = dict_get (extract_codes_by_system c) IMO_SYSTEM [],
                       all_codes = dict_get (extract_codes_by_system c) ''_all'' [],
                       normalized_status = normalize_clinical_status c,
                       searchable_text = build_searchable_text c,
                       display_name = pick_display_name c,
                       onset_start = fst (parse_onset_dates fromiso c),
                       onset_end = snd (parse_onset_dates fromiso c),
                       quality_flags = quality_flags r,
                       derived_from_ids = extract_derived_from_ids c,
                       is_removed = False,
                       removal_reason = None,
                       removal_timestamp = None,
                       ingestion_batch = Some bn\<rparr>"
    and "detect_quality_flags c (extract_codes_by_system c) (normalize_clinical_status c)
           (fst (parse_onset_dates fromiso c)) (snd (parse_onset_dates fromiso c))
         = Inr (quality_flags r)"
  using assms unfolding build_condition_record_def Let_def
  by (auto split: sum.splits prod.splits)

lemmas build_eval =
  build_condition_record_def validate_typed_def sample_condition_def FhirCondition_init_def
  extract_codes_by_system_def parse_onset_dates_def normalize_clinical_status_def
  detect_quality_flags_def build_searchable_text_def pick_display_name_def
  extract_derived_from_ids_def truthy_def dict_get_def sample_fromiso_def datetime_init_def
  CLINICAL_STATUS_NORMALIZATION_def ICD10_SYSTEM_def SNOMED_SYSTEM_def ICD9_SYSTEM_def
  IMO_SYSTEM_def ADMIN_CODE_INDICATORS_def VAGUE_ENTRY_KEYWORDS_def lower_def lower_char_def
  strip_def is_space_def datetime_sub_def wall_us_def toordinal_def days_before_year_def
  days_before_month_def is_leap_def coding_parts_def set_add_def Let_def

text \<open>
  C6. In a built record, \<open>inconsistent_status\<close> is among the quality flags exactly when the
  normalized status is \<open>active\<close> and an end date was parsed, or the status is \<open>resolved\<close>
  and there is no end date; \<open>short_duration\<close> is among them exactly when both onset dates
  are present and the end is later than the start by less than 24 hours (counted in
  microseconds). So a difference of 3600 seconds gives the flag and one of 90000 seconds
  does not. No flag occurs twice.
\<close>

theorem quality_flags_inconsistent_short:
  assumes "build_condition_record validate fromiso raw bn = Inr r"
  shows "(''inconsistent_status'' \<in> set (quality_flags r) \<longleftrightarrow>
            (normalized_status r = ''active'' \<and> onset_end r \<noteq> None) \<or>
            (normalized_status r = ''resolved'' \<and> onset_end r = None)) \<and>
         (''short_duration'' \<in> set (quality_flags r) \<longleftrightarrow>
            (\<exists>s e d. onset_start r = Some s \<and> onset_end r = Some e \<and>
                     datetime_sub e s = Inr d \<and> 0 < d \<and> d < 86400 * 1000000)) \<and>
         (\<forall>s e. onset_start r = Some s \<and> onset_end r = Some e \<and>
                datetime_sub e s = Inr (3600 * 1000000)
                \<longrightarrow> ''short_duration'' \<in> set (quality_flags r)) \<and>
         (\<forall>s e. onset_start r = Some s \<and> onset_end r = Some e \<and>
                datetime_sub e s = Inr (90000 * 1000000)
                \<longrightarrow> ''short_duration'' \<notin> set (quality_flags r)) \<and>
         distinct (quality_flags r)"
proof -
  from assms obtain c where r: "normalized_status r = normalize_clinical_status c"
      "onset_start r = fst (parse_onset_dates fromiso c)"
      "onset_end r = snd (parse_onset_dates fromiso c)"
    and d: "detect_quality_flags c (extract_codes_by_system c) (normalize_clinical_status c)
           (fst (parse_onset_dates fromiso c)) (snd (parse_onset_dates fromiso c))
         = Inr (quality_flags r)"
    by (elim build_condition_record_Inr) (metis ConditionRecord.select_convs)
  note shape = detect_quality_flags_shape [OF d, folded r]
  have inc: "''inconsistent_status'' \<in> set (quality_flags r) \<longleftrightarrow>
            (normalized_status r = ''active'' \<and> onset_end r \<noteq> None) \<or>
            (normalized_status r = ''resolved'' \<and> onset_end r = None)"
    by (subst shape) (simp add: set_flag_if)
  have short: "''short_duration'' \<in> set (quality_flags r) \<longleftrightarrow>
            (\<exists>s e d. onset_start r = Some s \<and> onset_end r = Some e \<and>
                     datetime_sub e s = Inr d \<and> 0 < d \<and> d < 86400 * 1000000)"
    by (subst shape) (simp add: set_flag_if)
  have dist: "distinct (quality_flags r)"
    by (subst shape)
       (simp add: set_flag_if distinct_flag_if distinct_flag_if_append del: distinct_append)
  from short have s1: "\<forall>s e. onset_start r = Some s \<and> onset_end r = Some e \<and>
                datetime_sub e s = Inr (3600 * 1000000)
                \<longrightarrow> ''short_duration'' \<in> set (quality_flags r)"
    by simp
  from short have s2: "\<forall>s e. onset_start r = Some s \<and> onset_end r = Some e \<and>
                datetime_sub e s = Inr (90000 * 1000000)
                \<longrightarrow> ''short_duration'' \<notin> set (quality_flags r)"
    by auto
  from inc short s1 s2 dist show ?thesis by blast
qed

theorem quality_flags_inconsistent_short_witness:
  "(\<exists>r. build_condition_record validate_typed sample_fromiso
          (Some (sample_condition ''c1'' (Some ''Active'') None []
                   (Some ''2020-01-01'') (Some ''2020-01-01T01:00:00''))) 1 = Inr r \<and>
        datetime_sub (the (onset_end r)) (the (onset_start r)) = Inr (3600 * 1000000) \<and>
        ''short_duration'' \<in> set (quality_flags r) \<and>
        ''inconsistent_status'' \<in> set (quality_flags r) \<and> distinct (quality_flags r)) \<and>
   (\<exists>r. build_condition_record validate_typed sample_fromiso
          (Some (sample_condition ''c2'' (Some ''Active'') None []
                   (Some ''2020-01-01'') (Some ''2020-01-02T01:00:00''))) 1 = Inr r \<and>
        datetime_sub (the (onset_end r)) (the (onset_start r)) = Inr (90000 * 1000000) \<and>
        ''short_duration'' \<notin> set (quality_flags r))"
proof -
  let ?a = "datetime_init 2020 1 1 0 0 0"
  let ?b = "datetime_init 2020 1 1 1 0 0"
  let ?c = "datetime_init 2020 1 2 1 0 0"
  let ?x1 = "build_condition_record validate_typed sample_fromiso
          (Some (sample_condition ''c1'' (Some ''Active'') None []
                   (Some ''2020-01-01'') (Some ''2020-01-01T01:00:00''))) 1"
  let ?x2 = "build_condition_record validate_typed sample_fromiso
          (Some (sample_condition ''c2'' (Some ''Active'') None []
                   (Some ''2020-01-01'') (Some ''2020-01-02T01:00:00''))) 1"
  have e1: "map_sum id (\<lambda>r. (onset_start r, onset_end r, normalized_status r)) ?x1
              = Inr (Some ?a, Some ?b, ''active'')"
    by (simp add: build_eval)
  have e2: "map_sum id (\<lambda>r. (onset_start r, onset_end r)) ?x2 = Inr (Some ?a, Some ?c)"
    by (simp add: build_eval)
  from e1 obtain r1 where r1: "?x1 = Inr r1"
    and f1: "onset_start r1 = Some ?a" "onset_end r1 = Some ?b" "normalized_status r1 = ''active''"
    by (cases ?x1) auto
  from e2 obtain r2 where r2: "?x2 = Inr r2"
    and f2: "onset_start r2 = Some ?a" "onset_end r2 = Some ?c"
    by (cases ?x2) auto
  have d1: "datetime_sub ?b ?a = Inr (3600 * 1000000)"
    by (simp add: build_eval)
  have d2: "datetime_sub ?c ?a = Inr (90000 * 1000000)"
    by (simp add: build_eval)
  from quality_flags_inconsistent_short [OF r1] f1 d1
  have "''short_duration'' \<in> set (quality_flags r1) \<and>
        ''inconsistent_status'' \<in> set (quality_flags r1) \<and> distinct (quality_flags r1)"
    by blast
  moreover from quality_flags_inconsistent_short [OF r2] f2 d2
  have "''short_duration'' \<notin> set (quality_flags r2)"
    by blast
  ultimately show ?thesis using r1 r2 f1 f2 d1 d2 by auto
qed

text \<open>
  C3 (amended). In a built record the normalized status is the clinical-status text,
  trimmed and lower-cased, and mapped through the synonym table: \<open>Active (Qualifier value)\<close>
  gives \<open>active\<close>; a missing status, or an empty text, gives \<open>unknown\<close>; any other text
  that the table does not map is kept, trimmed and lower-cased, as the status. The status
  is one of \<open>active\<close>, \<open>resolved\<close>, \<open>unknown\<close> only when the trimmed, lower-cased text is
  empty, is a key of the table, or is \<open>unknown\<close> itself.
\<close>

theorem normalized_status_passes_unmapped_text:
  assumes "build_condition_record validate fromiso raw bn = Inr r"
  shows "\<exists>c. validate raw = Inr c \<and>
           (clinicalStatus c = None \<longrightarrow> normalized_status r = ''unknown'') \<and>
           (\<forall>cs. clinicalStatus c = Some cs \<longrightarrow>
              (let t = lower (strip (case concept_text cs of None \<Rightarrow> [] | Some x \<Rightarrow> x))
               in normalized_status r =
                    (if t = ''active'' \<or> t = ''active (qualifier value)'' then ''active''
                     else if t = ''resolved'' then ''resolved''
                     else if t = [] then ''unknown''
                     else t) \<and>
                  (normalized_status r \<in> {''active'', ''resolved'', ''unknown''} \<longleftrightarrow>
                     t \<in> {[], ''active'', ''active (qualifier value)'', ''resolved'', ''unknown''}))) \<and>
           (\<forall>cs. clinicalStatus c = Some cs \<and> concept_text cs = Some ''Active (Qualifier value)''
                 \<longrightarrow> normalized_status r = ''active'')"
proof -
  from assms obtain c where v: "validate raw = Inr c"
    and n: "normalized_status r = normalize_clinical_status c"
    by (elim build_condition_record_Inr) (metis ConditionRecord.select_convs)
  have none: "normalized_status r = ''unknown''" if "clinicalStatus c = None"
    using that by (simp add: n normalize_clinical_status_def)
  have some: "normalized_status r =
                    (if t = ''active'' \<or> t = ''active (qualifier value)'' then ''active''
                     else if t = ''resolved'' then ''resolved''
                     else if t = [] then ''unknown''
                     else t)"
    if "clinicalStatus c = Some cs"
      and "t = lower (strip (case concept_text cs of None \<Rightarrow> [] | Some x \<Rightarrow> x))" for cs t
    using that
    by (simp add: n normalize_clinical_status_def Let_def dict_get_def
        CLINICAL_STATUS_NORMALIZATION_def)
  have mem: "(normalized_status r \<in> {''active'', ''resolved'', ''unknown''} \<longleftrightarrow>
                     t \<in> {[], ''active'', ''active (qualifier value)'', ''resolved'', ''unknown''})"
    if "clinicalStatus c = Some cs"
      and "t = lower (strip (case concept_text cs of None \<Rightarrow> [] | Some x \<Rightarrow> x))" for cs t
    unfolding some [OF that] by auto
  have act: "normalized_status r = ''active''"
    if "clinicalStatus c = Some cs \<and> concept_text cs = Some ''Active (Qualifier value)''" for cs
  proof -
    have "lower (strip ''Active (Qualifier value)'') = ''active (qualifier value)''"
      by (simp add: lower_def lower_char_def strip_def is_space_def)
    with some [of cs, OF _ refl] that show ?thesis by simp
  qed
  have both: "(let t = lower (strip (case concept_text cs of None \<Rightarrow> [] | Some x \<Rightarrow> x))
               in normalized_status r =
                    (if t = ''active'' \<or> t = ''active (qualifier value)'' then ''active''
                     else if t = ''resolved'' then ''resolved''
                     else if t = [] then ''unknown''
                     else t) \<and>
                  (normalized_status r \<in> {''active'', ''resolved'', ''unknown''} \<longleftrightarrow>
                     t \<in> {[], ''active'', ''active (qualifier value)'', ''resolved'', ''unknown''}))"
    if "clinicalStatus c = Some cs" for cs
    unfolding Let_def using some [OF that refl] mem [OF that refl] by (rule conjI)
  show ?thesis
    by (rule exI [of _ c]) (intro conjI allI impI v; (erule none | erule both | erule act))
qed

theorem normalized_status_passes_unmapped_text_witness:
  "\<exists>r. build_condition_record validate_typed sample_fromiso
          (Some (sample_condition ''c1'' (Some '' Active (Qualifier value)'') None [] None None)) 1
        = Inr r \<and> normalized_status r = ''active''"
proof -
  let ?c = "sample_condition ''c1'' (Some '' Active (Qualifier value)'') None [] None None"
  let ?x = "build_condition_record validate_typed sample_fromiso (Some ?c) 1"
  have "map_sum id resource_id ?x = Inr ''c1''"
    by (simp add: build_eval)
  then obtain r where r: "?x = Inr r"
    by (cases ?x) auto
  have t: "lower (strip '' Active (Qualifier value)'') = ''active (qualifier value)''"
    by (simp add: lower_def lower_char_def strip_def is_space_def)
  from normalized_status_passes_unmapped_text [OF r]
  obtain c where c: "validate_typed (Some ?c) = Inr c"
    and s: "\<forall>cs. clinicalStatus c = Some cs \<longrightarrow>
              (let t = lower (strip (case concept_text cs of None \<Rightarrow> [] | Some x \<Rightarrow> x))
               in normalized_status r =
                    (if t = ''active'' \<or> t = ''active (qualifier value)'' then ''active''
                     else if t = ''resolved'' then ''resolved''
                     else if t = [] then ''unknown''
                     else t) \<and>
                  (normalized_status r \<in> {''active'', ''resolved'', ''unknown''} \<longleftrightarrow>
                     t \<in> {[], ''active'', ''active (qualifier value)'', ''resolved'', ''unknown''}))"
    by blast
  from c have "c = ?c" by (simp add: validate_typed_def)
  with s t have "normalized_status r = ''active''"
    by (simp add: sample_condition_def Let_def)
  with r show ?thesis by blast
qed

text \<open>The status text \<open>Inactive\<close> is normalized to \<open>inactive\<close>, which is none of the
  three values.\<close>

theorem normalized_status_counterexample:
  "map_sum id normalized_status
     (build_condition_record validate_typed sample_fromiso
        (Some (sample_condition ''c1'' (Some ''Inactive'') None [] None None)) 1)
   = Inr ''inactive'' \<and>
   ''inactive'' \<notin> {''active'', ''resolved'', ''unknown''}"
  by (simp add: build_eval)

section \<open>Code filter of the retrieval\<close>

text \<open>
  C10. When the lower-cased \<open>code_system\<close> argument is none of the six aliases, the code
  filter tests the code against \<open>all_codes\<close>, exactly as the filter without a system does:
  for one record, and for the candidates that \<open>retrieve\<close> keeps.
\<close>

theorem matches_code_unknown_system:
  assumes "lower cs \<notin> {''icd10'', ''icd-10'', ''snomed'', ''icd9'', ''icd-9'', ''imo''}"
  shows "matches_code r cd (Some cs) = (cd \<in> set (all_codes r)) \<and>
         matches_code r cd (Some cs) = matches_code r cd None \<and>
         filter_candidates s query cd' (Some cs) status = filter_candidates s query cd' None status"
proof -
  have m: "matches_code r' c (Some cs) = (c \<in> set (all_codes r'))" for r' c
    using assms by (simp add: matches_code_def truthy_def)
  have n: "matches_code r' c None = (c \<in> set (all_codes r'))" for r' c
    by (simp add: matches_code_def truthy_def)
  show ?thesis
    by (simp add: m n filter_candidates_def Let_def)
qed

theorem matches_code_unknown_system_witness:
  "lower ''LOINC'' \<notin> {''icd10'', ''icd-10'', ''snomed'', ''icd9'', ''icd-9'', ''imo''} \<and>
   matches_code ((ConditionRecord_init ''c1'' (FhirCondition_init ''c1''))
                   \<lparr>snomed_codes := [''11999007''], all_codes := [''11999007'']\<rparr>)
     ''11999007'' (Some ''LOINC'') \<and>
   \<not> matches_code ((ConditionRecord_init ''c1'' (FhirCondition_init ''c1''))
                   \<lparr>snomed_codes := [''11999007''], all_codes := [''11999007'']\<rparr>)
     ''11999007'' (Some ''ICD10'')"
proof -
  have h: "lower ''LOINC'' \<notin> {''icd10'', ''icd-10'', ''snomed'', ''icd9'', ''icd-9'', ''imo''}"
    by (simp add: lower_def lower_char_def)
  have n: "\<not> matches_code ((ConditionRecord_init ''c1'' (FhirCondition_init ''c1''))
                   \<lparr>snomed_codes := [''11999007''], all_codes := [''11999007'']\<rparr>)
     ''11999007'' (Some ''ICD10'')"
    by (simp add: matches_code_def truthy_def lower_def lower_char_def ConditionRecord_init_def)
  have a: "''11999007'' \<in> set (all_codes ((ConditionRecord_init ''c1'' (FhirCondition_init ''c1''))
                   \<lparr>snomed_codes := [''11999007''], all_codes := [''11999007'']\<rparr>))"
    by simp
  from matches_code_unknown_system [OF h, of "(ConditionRecord_init ''c1'' (FhirCondition_init ''c1''))
                   \<lparr>snomed_codes := [''11999007''], all_codes := [''11999007'']\<rparr>" "''11999007''"]
    h n a show ?thesis
    by blast
qed

section \<open>Ingesting a batch\<close>

































section \<open>Removal by predicate\<close>

lemma str_in_sublist: "str_in p t \<longleftrightarrow> sublist p t"
  by (induction t) (auto simp: sublist_Cons_right)

lemma str_in_trans: "str_in p q \<Longrightarrow> str_in q t \<Longrightarrow> str_in p t"
  unfolding str_in_sublist by (rule sublist_order.order.trans)

lemma set_inter_nonempty: "set_inter a b \<noteq> [] \<longleftrightarrow> (\<exists>x \<in> set a. x \<in> set b)"
  by (simp add: set_inter_def filter_empty_conv)

lemma matches_predicate_tuberculosis:
  "map_of PREDICATES ''tuberculosis'' = Some pred \<Longrightarrow>
   matches_predicate r pred = tuberculosis_criteria r"
proof -
  assume "map_of PREDICATES ''tuberculosis'' = Some pred"
  then have pred: "pred = \<lparr>pred_name = ''tuberculosis'',
        pred_description = ''All TB-related conditions (latent TB, history of TB)'',
        pred_text_patterns = [''tuberculosis'', ''latent tb'', ''hx of latent tb''],
        pred_icd10_codes = [''Z22.7'', ''Z86.15''],
        pred_snomed_codes = [''11999007'', ''428934008''],
        pred_quality_flags = []\<rparr>"
    by (simp add: PREDICATES_def)
  have "str_in ''latent tb'' ''hx of latent tb''" by simp
  then have hx: "str_in ''hx of latent tb'' t \<Longrightarrow> str_in ''latent tb'' t" for t
    by (rule str_in_trans)
  show ?thesis
    unfolding pred matches_predicate_def tuberculosis_criteria_def
    using hx [of "searchable_text r"]
    by (auto simp: set_inter_nonempty)
qed

lemma store_wf_lookup:
  assumes "store_wf s" "r \<in> set (map snd s)"
  shows "map_of s (resource_id r) = Some r"
proof -
  from assms(2) obtain k where "(k, r) \<in> set s" by auto
  with assms(1) show ?thesis
    by (auto simp: store_wf_def list_all_iff)
qed

lemma store_wf_key: "store_wf s \<Longrightarrow> map_of s k = Some r \<Longrightarrow> resource_id r = k"
  by (auto simp: store_wf_def list_all_iff dest: map_of_SomeD)

lemma store_wf_distinct_ids: "store_wf s \<Longrightarrow> distinct (map resource_id (filter P (map snd s)))"
proof -
  assume wf: "store_wf s"
  then have "map (\<lambda>x. resource_id (snd x)) s = map fst s"
    by (auto simp: store_wf_def list_all_iff)
  moreover have "map resource_id (map snd s) = map (\<lambda>x. resource_id (snd x)) s"
    by simp
  ultimately have "distinct (map resource_id (map snd s))"
    using wf by (simp only: store_wf_def)
  then show ?thesis by (rule distinct_map_filter)
qed

lemma apply_removals_loop_spec:
  assumes "distinct (map resource_id ms)"
    and "\<forall>r \<in> set ms. map_of s (resource_id r) = Some r \<and> \<not> is_removed r"
  shows "\<exists>s' removed'. apply_removals_loop ms rsn clock n s removed = (s', removed') \<and>
           map fst s' = map fst s \<and>
           (\<forall>r \<in> set ms. \<exists>t. map_of s' (resource_id r) =
               Some (r\<lparr>is_removed := True, removal_reason := Some rsn,
                       removal_timestamp := Some (now_utc t)\<rparr>)) \<and>
           (\<forall>k. k \<notin> resource_id ` set ms \<longrightarrow> map_of s' k = map_of s k)"
  using assms
proof (induction ms arbitrary: s n removed)
  case Nil
  show ?case by simp
next
  case (Cons r ms)
  define r' where "r' = r\<lparr>is_removed := True, removal_reason := Some rsn,
                  removal_timestamp := Some (now_utc (clock n))\<rparr>"
  define s1 where "s1 = AList.update (resource_id r) r' s"
  define removed1 where
    "removed1 = removed @ [display_name r @ '' ('' @ take 8 (resource_id r) @ '')'']"
  from Cons.prems have look: "map_of s (resource_id r) = Some r" and act: "\<not> is_removed r"
    by simp_all
  then have step: "soft_remove s (resource_id r) rsn (clock n) = (s1, True)"
    by (simp add: soft_remove_def s1_def r'_def)
  from Cons.prems have d: "distinct (map resource_id ms)"
    and notin: "resource_id r \<notin> resource_id ` set ms"
    by simp_all
  have s1_other: "map_of s1 k = map_of s k" if "k \<noteq> resource_id r" for k
    using that by (simp add: s1_def update_conv')
  have s1_self: "map_of s1 (resource_id r) = Some r'"
    by (simp add: s1_def update_conv')
  have pre: "\<forall>q \<in> set ms. map_of s1 (resource_id q) = Some q \<and> \<not> is_removed q"
  proof
    fix q assume q: "q \<in> set ms"
    then have "resource_id q \<in> resource_id ` set ms" by (rule imageI)
    with notin have ne: "resource_id q \<noteq> resource_id r" by metis
    from q Cons.prems(2) have "map_of s (resource_id q) = Some q" "\<not> is_removed q"
      by simp_all
    with s1_other [OF ne] show "map_of s1 (resource_id q) = Some q \<and> \<not> is_removed q"
      by simp
  qed
  from Cons.IH [OF d pre, of "n + 1" removed1]
  obtain s' removed' where
    run: "apply_removals_loop ms rsn clock (n + 1) s1 removed1 = (s', removed')"
    and keys: "map fst s' = map fst s1"
    and rem: "\<forall>q \<in> set ms. \<exists>t. map_of s' (resource_id q) =
               Some (q\<lparr>is_removed := True, removal_reason := Some rsn,
                       removal_timestamp := Some (now_utc t)\<rparr>)"
    and other: "\<forall>k. k \<notin> resource_id ` set ms \<longrightarrow> map_of s' k = map_of s1 k"
    by (elim exE conjE)
  have a: "apply_removals_loop (r # ms) rsn clock n s removed = (s', removed')"
    using step run by (simp add: removed1_def)
  have b: "map fst s' = map fst s"
    using keys update_keys_same [OF look] by (simp add: s1_def)
  have "map_of s' (resource_id r) = Some r'"
    using other notin s1_self by simp
  then have "\<exists>t. map_of s' (resource_id r) =
               Some (r\<lparr>is_removed := True, removal_reason := Some rsn,
                       removal_timestamp := Some (now_utc t)\<rparr>)"
    unfolding r'_def by (rule exI)
  with rem have c: "\<forall>q \<in> set (r # ms). \<exists>t. map_of s' (resource_id q) =
               Some (q\<lparr>is_removed := True, removal_reason := Some rsn,
                       removal_timestamp := Some (now_utc t)\<rparr>)"
    by simp
  have e: "\<forall>k. k \<notin> resource_id ` set (r # ms) \<longrightarrow> map_of s' k = map_of s k"
    using other s1_other by simp
  from a b c e show ?case by blast
qed

lemma store_wf_empty: "store_wf []"
  by (simp add: store_wf_def)

lemma store_wf_add: "store_wf s \<Longrightarrow> store_wf (fst (add s r))"
  by (auto simp: add_def store_wf_def update_new_append map_of_eq_None_iff)

lemma store_wf_soft_remove: "store_wf s \<Longrightarrow> store_wf (fst (soft_remove s rid rsn now))"
proof -
  assume wf: "store_wf s"
  have upd: "list_all (\<lambda>(k, r). resource_id r = k) (AList.update k v al)"
    if "list_all (\<lambda>(k, r). resource_id r = k) al" "resource_id v = k" for k v and al :: store
    using that by (induction al) auto
  show ?thesis
  proof (cases "map_of s rid")
    case None
    with wf show ?thesis by (simp add: soft_remove_def)
  next
    case (Some r)
    with wf have "resource_id r = rid" by (rule store_wf_key)
    with wf Some show ?thesis
      by (auto simp: soft_remove_def store_wf_def update_keys_same intro!: upd)
  qed
qed

text \<open>
  C1 (amended). On a store whose records are held under their own ids,
  \<open>remove_by_predicate\<close> with the predicate \<open>tuberculosis\<close> removes a record that is active
  at the call exactly when its searchable text contains \<open>tuberculosis\<close> or \<open>latent tb\<close>, or
  its ICD-10 codes contain \<open>Z22.7\<close> or \<open>Z86.15\<close>, or its SNOMED codes contain \<open>11999007\<close>
  or \<open>428934008\<close>; it then carries the reason given. An active record that meets none of
  the criteria, and every record removed before, is left as it was, and no key is added
  or dropped.
\<close>

theorem remove_by_predicate_tuberculosis:
  assumes wf: "store_wf s"
    and run: "remove_by_predicate s dash clock ''tuberculosis'' rsn = (res, s', dash')"
  shows "map fst s' = map fst s \<and>
         (\<forall>k r. map_of s k = Some r \<and> \<not> is_removed r \<longrightarrow>
            (\<exists>r'. map_of s' k = Some r' \<and>
                  (is_removed r' \<longleftrightarrow> tuberculosis_criteria r) \<and>
                  (tuberculosis_criteria r \<longrightarrow> removal_reason r' = Some rsn) \<and>
                  (\<not> tuberculosis_criteria r \<longrightarrow> r' = r))) \<and>
         (\<forall>k r. map_of s k = Some r \<and> is_removed r \<longrightarrow> map_of s' k = Some r)"
proof -
  obtain pred where pred: "map_of PREDICATES ''tuberculosis'' = Some pred"
    by (simp add: PREDICATES_def)
  define ms where "ms = filter (\<lambda>r. matches_predicate r pred) (get_all_active s)"
  have ms: "ms = filter (\<lambda>r. \<not> is_removed r \<and> tuberculosis_criteria r) (map snd s)"
    by (simp add: ms_def get_all_active_def matches_predicate_tuberculosis [OF pred] conj_commute)
  have run2: "apply_removals s dash clock ms ''remove_by_predicate'' ''tuberculosis'' rsn
                = (res, s', dash')"
    using run pred by (simp add: remove_by_predicate_def ms_def)
  have dis: "distinct (map resource_id ms)"
    unfolding ms using wf by (rule store_wf_distinct_ids)
  have inms: "r \<in> set ms \<longleftrightarrow> \<not> is_removed r \<and> tuberculosis_criteria r"
    if "map_of s k = Some r" for k r
    using map_of_SomeD [OF that] by (force simp: ms)
  have look: "\<forall>r \<in> set ms. map_of s (resource_id r) = Some r \<and> \<not> is_removed r"
    using store_wf_lookup [OF wf] by (simp add: ms)
  from apply_removals_loop_spec [OF dis look, of rsn clock 0 "[]"]
  obtain s1 removed where
    loop: "apply_removals_loop ms rsn clock 0 s [] = (s1, removed)"
    and keys: "map fst s1 = map fst s"
    and rem: "\<forall>r \<in> set ms. \<exists>t. map_of s1 (resource_id r) =
               Some (r\<lparr>is_removed := True, removal_reason := Some rsn,
                       removal_timestamp := Some (now_utc t)\<rparr>)"
    and other: "\<forall>k. k \<notin> resource_id ` set ms \<longrightarrow> map_of s1 k = map_of s k"
    by (elim exE conjE)
  have s': "s' = (if ms = [] then s else s1)"
    using run2 loop by (auto simp: apply_removals_def Let_def split: if_splits)
  have nil: "s1 = s" if "ms = []"
    using loop that by simp
  have s'1: "s' = s1"
    using s' nil by simp
  have hit: "\<exists>r'. map_of s' k = Some r' \<and> is_removed r' \<and> removal_reason r' = Some rsn"
    if "map_of s k = Some r" "r \<in> set ms" for k r
  proof -
    from wf that(1) have "resource_id r = k" by (rule store_wf_key)
    with rem that(2) obtain t where "map_of s1 k =
               Some (r\<lparr>is_removed := True, removal_reason := Some rsn,
                       removal_timestamp := Some (now_utc t)\<rparr>)"
      by blast
    then show ?thesis by (simp add: s'1)
  qed
  have miss: "map_of s' k = Some r" if "map_of s k = Some r" "r \<notin> set ms" for k r
  proof -
    have "k \<notin> resource_id ` set ms"
    proof
      assume "k \<in> resource_id ` set ms"
      then obtain q where q: "q \<in> set ms" "resource_id q = k" by auto
      with look have "map_of s k = Some q" by auto
      with that q show False by simp
    qed
    with other that(1) show ?thesis by (simp add: s'1)
  qed
  have active: "\<exists>r'. map_of s' k = Some r' \<and>
                  (is_removed r' \<longleftrightarrow> tuberculosis_criteria r) \<and>
                  (tuberculosis_criteria r \<longrightarrow> removal_reason r' = Some rsn) \<and>
                  (\<not> tuberculosis_criteria r \<longrightarrow> r' = r)"
    if "map_of s k = Some r \<and> \<not> is_removed r" for k r
  proof (cases "tuberculosis_criteria r")
    case True
    with that inms [of k r] have "r \<in> set ms" by simp
    from hit [OF _ this] that True show ?thesis by auto
  next
    case False
    with that inms [of k r] have "r \<notin> set ms" by simp
    from miss [OF _ this] that False show ?thesis by auto
  qed
  have removed: "map_of s' k = Some r" if "map_of s k = Some r \<and> is_removed r" for k r
  proof -
    from that inms [of k r] have "r \<notin> set ms" by simp
    from miss [OF _ this] that show ?thesis by simp
  qed
  have "map fst s' = map fst s" using keys by (simp add: s'1)
  with active removed show ?thesis by blast
qed

theorem remove_by_predicate_tuberculosis_witness:
  "store_wf
     [(''c1'', (ConditionRecord_init ''c1'' (FhirCondition_init ''c1''))
                 \<lparr>searchable_text := ''hx of latent tb z22.7'', icd10_codes := [''Z22.7'']\<rparr>),
      (''c2'', (ConditionRecord_init ''c2'' (FhirCondition_init ''c2''))
                 \<lparr>searchable_text := ''asthma j45.909'', icd10_codes := [''J45.909'']\<rparr>)] \<and>
   (\<exists>res s' dash'.
      remove_by_predicate
        [(''c1'', (ConditionRecord_init ''c1'' (FhirCondition_init ''c1''))
                 \<lparr>searchable_text := ''hx of latent tb z22.7'', icd10_codes := [''Z22.7'']\<rparr>),
         (''c2'', (ConditionRecord_init ''c2'' (FhirCondition_init ''c2''))
                 \<lparr>searchable_text := ''asthma j45.909'', icd10_codes := [''J45.909'']\<rparr>)]
        MonitoringDashboard_init (fixed_clock (datetime_init 2024 5 1 12 0 0))
        ''tuberculosis'' ''not mine'' = (res, s', dash') \<and>
      map_option is_removed (map_of s' ''c1'') = Some True \<and>
      map_option removal_reason (map_of s' ''c1'') = Some (Some ''not mine'') \<and>
      map_of s' ''c2'' =
        Some ((ConditionRecord_init ''c2'' (FhirCondition_init ''c2''))
                 \<lparr>searchable_text := ''asthma j45.909'', icd10_codes := [''J45.909'']\<rparr>))"
proof -
  define r1 where "r1 = (ConditionRecord_init ''c1'' (FhirCondition_init ''c1''))
                 \<lparr>searchable_text := ''hx of latent tb z22.7'', icd10_codes := [''Z22.7'']\<rparr>"
  define r2 where "r2 = (ConditionRecord_init ''c2'' (FhirCondition_init ''c2''))
                 \<lparr>searchable_text := ''asthma j45.909'', icd10_codes := [''J45.909'']\<rparr>"
  define S where "S = [(''c1'', r1), (''c2'', r2)]"
  have wf: "store_wf S"
    by (simp add: S_def r1_def r2_def store_wf_def ConditionRecord_init_def)
  have l1: "map_of S ''c1'' = Some r1 \<and> \<not> is_removed r1"
    and l2: "map_of S ''c2'' = Some r2 \<and> \<not> is_removed r2"
    by (simp_all add: S_def r1_def r2_def ConditionRecord_init_def)
  have c1: "tuberculosis_criteria r1"
    by (simp add: tuberculosis_criteria_def r1_def)
  have c2: "\<not> tuberculosis_criteria r2"
    by (simp add: tuberculosis_criteria_def r2_def ConditionRecord_init_def)
  obtain res s' dash' where
    run: "remove_by_predicate S MonitoringDashboard_init
            (fixed_clock (datetime_init 2024 5 1 12 0 0)) ''tuberculosis'' ''not mine''
          = (res, s', dash')"
    using prod_cases3 by blast
  note t = remove_by_predicate_tuberculosis [OF wf run]
  from t have act: "\<And>k r. map_of S k = Some r \<and> \<not> is_removed r \<Longrightarrow>
            (\<exists>r'. map_of s' k = Some r' \<and>
                  (is_removed r' \<longleftrightarrow> tuberculosis_criteria r) \<and>
                  (tuberculosis_criteria r \<longrightarrow> removal_reason r' = Some ''not mine'') \<and>
                  (\<not> tuberculosis_criteria r \<longrightarrow> r' = r))"
    by blast
  from act [OF l1] c1 obtain r1' where "map_of s' ''c1'' = Some r1'" "is_removed r1'"
    "removal_reason r1' = Some ''not mine''"
    by blast
  then have a: "map_option is_removed (map_of s' ''c1'') = Some True"
    "map_option removal_reason (map_of s' ''c1'') = Some (Some ''not mine'')"
    by simp_all
  from act [OF l2] c2 have b: "map_of s' ''c2'' = Some r2"
    by blast
  from wf run a b show ?thesis
    unfolding S_def r1_def r2_def by blast
qed

text \<open>A record whose text is \<open>pulmonary tuberculosis\<close>, without any code, does not
  contain \<open>latent tb\<close> and is removed all the same.\<close>

theorem remove_by_predicate_counterexample:
  "\<not> str_in ''latent tb''
       (searchable_text ((ConditionRecord_init ''c1'' (FhirCondition_init ''c1''))
                           \<lparr>searchable_text := ''pulmonary tuberculosis''\<rparr>)) \<and>
   icd10_codes ((ConditionRecord_init ''c1'' (FhirCondition_init ''c1''))
                  \<lparr>searchable_text := ''pulmonary tuberculosis''\<rparr>) = [] \<and>
   snomed_codes ((ConditionRecord_init ''c1'' (FhirCondition_init ''c1''))
                   \<lparr>searchable_text := ''pulmonary tuberculosis''\<rparr>) = [] \<and>
   get_all_active
     [(''c1'', (ConditionRecord_init ''c1'' (FhirCondition_init ''c1''))
                 \<lparr>searchable_text := ''pulmonary tuberculosis''\<rparr>)]
     = [(ConditionRecord_init ''c1'' (FhirCondition_init ''c1''))
          \<lparr>searchable_text := ''pulmonary tuberculosis''\<rparr>] \<and>
   map_option is_removed
     (get_by_id
        (fst (snd (remove_by_predicate
           [(''c1'', (ConditionRecord_init ''c1'' (FhirCondition_init ''c1''))
                       \<lparr>searchable_text := ''pulmonary tuberculosis''\<rparr>)]
           MonitoringDashboard_init (fixed_clock (datetime_init 2024 5 1 12 0 0))
           ''tuberculosis'' ''not mine'')))
        ''c1'') = Some True"
  by (simp add: ConditionRecord_init_def get_all_active_def get_by_id_def
      remove_by_predicate_def PREDICATES_def matches_predicate_def apply_removals_def
      soft_remove_def Let_def)

section \<open>Grouping by canonical code\<close>

lemma overlap_loop_iff:
  "overlap_loop sp i \<longleftrightarrow> (\<exists>j. i \<le> j \<and> j < length sp \<and> fst (sp ! j) < snd (sp ! (j - 1)))"
proof (induction sp i rule: overlap_loop.induct)
  case (1 sp i)
  show ?case
  proof (cases "i < length sp")
    case False
    then show ?thesis by (simp add: overlap_loop.simps [of sp i])
  next
    case True
    show ?thesis
    proof (cases "fst (sp ! i) < snd (sp ! (i - 1))")
      case hit: True
      with True show ?thesis
        by (auto simp: overlap_loop.simps [of sp i])
    next
      case miss: False
      with True have "overlap_loop sp i = overlap_loop sp (i + 1)"
        by (simp add: overlap_loop.simps [of sp i])
      also have "\<dots> \<longleftrightarrow> (\<exists>j. i + 1 \<le> j \<and> j < length sp \<and> fst (sp ! j) < snd (sp ! (j - 1)))"
        using "1.IH" True miss by simp
      also have "\<dots> \<longleftrightarrow> (\<exists>j. i \<le> j \<and> j < length sp \<and> fst (sp ! j) < snd (sp ! (j - 1)))"
        using miss by (metis Suc_eq_plus1 Suc_leD Suc_leI le_neq_implies_less)
      finally show ?thesis .
    qed
  qed
qed

lemma update_keys_cases:
  "map fst (AList.update k v al) =
     (if k \<in> set (map fst al) then map fst al else map fst al @ [k])"
  by (induction al) auto

lemma group_step_facts:
  assumes step: "group_step (groups, periods) r = (groups', periods')"
    and keys: "map fst periods = map fst groups"
  shows "map fst groups' =
           (if group_key r \<in> set (map fst groups) then map fst groups
            else map fst groups @ [group_key r])"
    and "map fst periods' = map fst groups'"
    and "\<And>j. j \<noteq> group_key r \<Longrightarrow> map_of groups' j = map_of groups j"
    and "\<And>j. j \<noteq> group_key r \<Longrightarrow> map_of periods' j = map_of periods j"
    and "\<exists>g'. map_of groups' (group_key r) = Some g' \<and>
           canonical_code g' =
             (case map_of groups (group_key r) of None \<Rightarrow> group_key r | Some g \<Rightarrow> canonical_code g) \<and>
           encounter_count g' =
             (case map_of groups (group_key r) of None \<Rightarrow> 0 | Some g \<Rightarrow> encounter_count g) + 1 \<and>
           has_overlapping_dates g' =
             (case map_of groups (group_key r) of None \<Rightarrow> False | Some g \<Rightarrow> has_overlapping_dates g)"
    and "map_of periods' (group_key r) =
           Some ((case map_of periods (group_key r) of None \<Rightarrow> [] | Some p \<Rightarrow> p) @ onset_pair r)"
proof -
  obtain k label where cc: "canonical_code_of r = (k, label)"
    by (cases "canonical_code_of r")
  then have k: "group_key r = k" by (simp add: group_key_def)
  have same: "map_of periods k = None \<longleftrightarrow> map_of groups k = None"
    using keys by (metis map_of_eq_None_iff set_map)
  define fresh where "fresh = (map_of groups k = None)"
  define groups1 where "groups1 = (if fresh
                     then AList.update k
                            (ConditionGroup_init k label (display_name r) (code_labels r))
                            groups
                     else groups)"
  define periods1 where "periods1 = (if fresh then AList.update k [] periods else periods)"
  define g where "g = the (map_of groups1 k)"
  obtain g' where g': "groups' = AList.update k g' groups1"
    "canonical_code g' = canonical_code g" "encounter_count g' = encounter_count g + 1"
    "has_overlapping_dates g' = has_overlapping_dates g"
    using step unfolding group_step_def cc Let_def prod.case fresh_def groups1_def g_def
    by (auto simp del: AList.update.simps)
  have p': "periods' = (case (onset_start r, onset_end r) of
               (Some a, Some b) \<Rightarrow>
                 AList.update k (the (map_of periods1 k) @ [(isoformat a, isoformat b)]) periods1
             | _ \<Rightarrow> periods1)"
    using step unfolding group_step_def cc Let_def prod.case fresh_def periods1_def
    by (auto simp del: AList.update.simps)
  have keys1: "map fst groups1 = (if k \<in> set (map fst groups) then map fst groups
            else map fst groups @ [k])"
    unfolding groups1_def fresh_def
    by (auto simp: update_keys_cases map_of_eq_None_iff simp del: AList.update.simps)
  have in1: "k \<in> set (map fst groups1)"
    using keys1 by (auto split: if_splits)
  have pkeys1: "map fst periods1 = map fst groups1"
    unfolding groups1_def periods1_def using keys same
    by (auto simp: update_keys_cases fresh_def map_of_eq_None_iff simp del: AList.update.simps)
  have g1: "map_of groups1 k = Some g"
    using in1 unfolding g_def by (metis map_of_eq_None_iff option.collapse set_map)
  have gval: "canonical_code g = (case map_of groups k of None \<Rightarrow> k | Some g \<Rightarrow> canonical_code g)"
    "encounter_count g = (case map_of groups k of None \<Rightarrow> 0 | Some g \<Rightarrow> encounter_count g)"
    "has_overlapping_dates g =
       (case map_of groups k of None \<Rightarrow> False | Some g \<Rightarrow> has_overlapping_dates g)"
    using g1 unfolding groups1_def fresh_def
    by (auto simp: update_conv' ConditionGroup_init_def split: option.splits if_splits)
  have pval: "map_of periods1 k = Some (case map_of periods k of None \<Rightarrow> [] | Some p \<Rightarrow> p)"
    unfolding periods1_def fresh_def using same
    by (auto simp: update_conv' split: option.splits)
  show "map fst groups' =
           (if group_key r \<in> set (map fst groups) then map fst groups
            else map fst groups @ [group_key r])"
    unfolding k g'(1) using in1 keys1 by (simp add: update_keys_cases del: AList.update.simps)
  have gk': "map fst groups' = map fst groups1"
    unfolding g'(1) using in1 by (simp add: update_keys_cases del: AList.update.simps)
  show "map fst periods' = map fst groups'"
    unfolding gk' p' using pkeys1 in1
    by (auto simp: update_keys_cases split: option.splits simp del: AList.update.simps)
  show "map_of groups' j = map_of groups j" if "j \<noteq> group_key r" for j
    using that unfolding k g'(1) groups1_def by (simp add: update_conv')
  show "map_of periods' j = map_of periods j" if "j \<noteq> group_key r" for j
    using that unfolding k p' periods1_def by (simp add: update_conv' split: option.splits)
  show "\<exists>g'. map_of groups' (group_key r) = Some g' \<and>
           canonical_code g' =
             (case map_of groups (group_key r) of None \<Rightarrow> group_key r | Some g \<Rightarrow> canonical_code g) \<and>
           encounter_count g' =
             (case map_of groups (group_key r) of None \<Rightarrow> 0 | Some g \<Rightarrow> encounter_count g) + 1 \<and>
           has_overlapping_dates g' =
             (case map_of groups (group_key r) of None \<Rightarrow> False | Some g \<Rightarrow> has_overlapping_dates g)"
    unfolding k using g' gval by (intro exI [of _ g']) (simp add: update_conv')
  show "map_of periods' (group_key r) =
           Some ((case map_of periods (group_key r) of None \<Rightarrow> [] | Some p \<Rightarrow> p) @ onset_pair r)"
    unfolding k p' using pval
    by (simp add: onset_pair_def update_conv' split: option.splits)
qed

lemma member_periods_snoc: "member_periods (rs @ [r]) = member_periods rs @ onset_pair r"
  by (simp add: member_periods_def)

lemma group_fold_inv:
  assumes "foldl group_step ([], []) rs = (groups, periods)"
  shows "map fst periods = map fst groups \<and>
         distinct (map fst groups) \<and>
         set (map fst groups) = group_key ` set rs \<and>
         (\<forall>k g. map_of groups k = Some g \<longrightarrow>
            canonical_code g = k \<and>
            encounter_count g = length (filter (\<lambda>r. group_key r = k) rs) \<and>
            \<not> has_overlapping_dates g) \<and>
         (\<forall>k \<in> group_key ` set rs.
            map_of periods k = Some (member_periods (filter (\<lambda>r. group_key r = k) rs)))"
  using assms
proof (induction rs arbitrary: groups periods rule: rev_induct)
  case Nil
  then show ?case by simp
next
  case (snoc r rs)
  obtain g0 p0 where f0: "foldl group_step ([], []) rs = (g0, p0)"
    by (cases "foldl group_step ([], []) rs")
  with snoc.prems have step: "group_step (g0, p0) r = (groups, periods)"
    by simp
  from snoc.IH [OF f0] have
    k0: "map fst p0 = map fst g0"
    and d0: "distinct (map fst g0)"
    and s0: "set (map fst g0) = group_key ` set rs"
    and i0: "\<And>k g. map_of g0 k = Some g \<Longrightarrow>
            canonical_code g = k \<and>
            encounter_count g = length (filter (\<lambda>r. group_key r = k) rs) \<and>
            \<not> has_overlapping_dates g"
    and q0: "\<And>k. k \<in> group_key ` set rs \<Longrightarrow>
            map_of p0 k = Some (member_periods (filter (\<lambda>r. group_key r = k) rs))"
    by blast+
  note facts = group_step_facts [OF step k0]
  define k where "k = group_key r"
  have none_iff: "map_of g0 k = None \<longleftrightarrow> k \<notin> group_key ` set rs"
    using s0 by (metis map_of_eq_None_iff set_map)
  have pnone_iff: "map_of p0 k = None \<longleftrightarrow> k \<notin> group_key ` set rs"
    using s0 k0 by (metis map_of_eq_None_iff set_map)
  have empty: "filter (\<lambda>r. group_key r = k) rs = []" if "k \<notin> group_key ` set rs"
    using that by (auto simp: filter_empty_conv)
  have a: "map fst periods = map fst groups"
    using facts(2) .
  have b: "distinct (map fst groups)"
    using facts(1) d0 by (auto split: if_splits)
  have c: "set (map fst groups) = group_key ` set (rs @ [r])"
    using facts(1) s0 by (auto split: if_splits)
  have d: "canonical_code g = j \<and>
            encounter_count g = length (filter (\<lambda>r. group_key r = j) (rs @ [r])) \<and>
            \<not> has_overlapping_dates g"
    if look: "map_of groups j = Some g" for j g
  proof (cases "j = k")
    case False
    with look facts(3) [of j] have "map_of g0 j = Some g" by (simp add: k_def)
    from i0 [OF this] False show ?thesis by (simp add: k_def)
  next
    case True
    from facts(5) [folded k_def] look True have
      g1: "canonical_code g =
             (case map_of g0 k of None \<Rightarrow> k | Some g \<Rightarrow> canonical_code g)"
      and g2: "encounter_count g =
             (case map_of g0 k of None \<Rightarrow> 0 | Some g \<Rightarrow> encounter_count g) + 1"
      and g3: "has_overlapping_dates g =
             (case map_of g0 k of None \<Rightarrow> False | Some g \<Rightarrow> has_overlapping_dates g)"
      by auto
    show ?thesis
    proof (cases "map_of g0 k")
      case None
      with none_iff empty have "filter (\<lambda>r. group_key r = k) rs = []" by simp
      with None g1 g2 g3 True show ?thesis by (simp add: k_def)
    next
      case (Some g00)
      from i0 [OF Some] Some g1 g2 g3 True show ?thesis by (simp add: k_def)
    qed
  qed
  have e: "map_of periods j = Some (member_periods (filter (\<lambda>r. group_key r = j) (rs @ [r])))"
    if mem: "j \<in> group_key ` set (rs @ [r])" for j
  proof (cases "j = k")
    case False
    with mem have "j \<in> group_key ` set rs" by (auto simp: k_def)
    from q0 [OF this] facts(4) [of j] False show ?thesis by (simp add: k_def)
  next
    case True
    have p: "map_of periods k =
           Some ((case map_of p0 k of None \<Rightarrow> [] | Some p \<Rightarrow> p) @ onset_pair r)"
      using facts(6) by (simp add: k_def)
    show ?thesis
    proof (cases "k \<in> group_key ` set rs")
      case in_rs: True
      from q0 [OF in_rs] p True show ?thesis
        by (simp add: k_def member_periods_snoc)
    next
      case out: False
      with pnone_iff have "map_of p0 k = None" by simp
      with p empty [OF out] True show ?thesis
        by (simp add: k_def member_periods_def)
    qed
  qed
  from a b c d e show ?case by blast
qed

lemma detect_overlapping_iff:
  "detect_overlapping_onset_periods ps \<longleftrightarrow>
     (\<exists>i. 1 \<le> i \<and> i < length (sort_key fst ps) \<and>
          fst (sort_key fst ps ! i) < snd (sort_key fst ps ! (i - 1)))"
  by (simp add: detect_overlapping_onset_periods_def overlap_loop_iff)

lemma grouped_entries:
  assumes f: "foldl group_step ([], []) rs = (groups, periods)"
    and e: "(k, g) \<in> set (flag_overlaps groups periods)"
  shows "canonical_code g = k \<and> k \<in> group_key ` set rs \<and>
         encounter_count g = length (filter (\<lambda>r. group_key r = k) rs) \<and>
         (has_overlapping_dates g \<longleftrightarrow>
            2 \<le> length (member_periods (filter (\<lambda>r. group_key r = k) rs)) \<and>
            detect_overlapping_onset_periods (member_periods (filter (\<lambda>r. group_key r = k) rs)))"
proof -
  note inv = group_fold_inv [OF f]
  define ps where "ps = member_periods (filter (\<lambda>r. group_key r = k) rs)"
  from e obtain k0 g0 where in0: "(k0, g0) \<in> set groups"
    and eq: "(k, g) = (let ps = the (map_of periods k0)
             in if length ps \<ge> 2 \<and> detect_overlapping_onset_periods ps
                then (k0, g0\<lparr>has_overlapping_dates := True\<rparr>)
                else (k0, g0))"
    by (auto simp: flag_overlaps_def)
  from eq have kk: "k0 = k" by (auto simp: Let_def split: if_splits)
  from inv in0 have look: "map_of groups k = Some g0"
    by (simp add: kk)
  with inv have g0: "canonical_code g0 = k"
    "encounter_count g0 = length (filter (\<lambda>r. group_key r = k) rs)"
    "\<not> has_overlapping_dates g0"
    by blast+
  from inv in0 have kin: "k \<in> group_key ` set rs"
    by (metis kk fst_conv image_eqI set_map)
  with inv have per: "map_of periods k = Some ps"
    unfolding ps_def by blast
  from eq per have g: "g = (if length ps \<ge> 2 \<and> detect_overlapping_onset_periods ps
                then g0\<lparr>has_overlapping_dates := True\<rparr> else g0)"
    by (auto simp: kk Let_def split: if_splits)
  show ?thesis
    unfolding ps_def [symmetric] using g g0 kin by auto
qed

lemma grouped_keys:
  assumes f: "foldl group_step ([], []) rs = (groups, periods)"
  shows "map canonical_code (map snd (flag_overlaps groups periods)) = map fst groups"
proof -
  note inv = group_fold_inv [OF f]
  have "canonical_code (snd ((\<lambda>(cd, g).
            (let ps = the (map_of periods cd)
             in if length ps \<ge> 2 \<and> detect_overlapping_onset_periods ps
                then (cd, g\<lparr>has_overlapping_dates := True\<rparr>)
                else (cd, g))) x)) = fst x" if "x \<in> set groups" for x
  proof -
    obtain k g where x: "x = (k, g)" by (cases x)
    with that inv have "map_of groups k = Some g" by simp
    with inv have "canonical_code g = k" by blast
    then show ?thesis by (simp add: x Let_def)
  qed
  then show ?thesis
    by (simp add: flag_overlaps_def)
qed

lemma group_by_keys:
  "distinct (map canonical_code (group_by_canonical_code records)) \<and>
   set (map canonical_code (group_by_canonical_code records)) = group_key ` set records"
proof -
  obtain groups periods where f: "foldl group_step ([], []) records = (groups, periods)"
    by (cases "foldl group_step ([], []) records")
  note inv = group_fold_inv [OF f]
  define xs where "xs = map snd (flag_overlaps groups periods)"
  have res: "group_by_canonical_code records = sort_key (\<lambda>g. - int (encounter_count g)) xs"
    using f by (simp add: group_by_canonical_code_def xs_def)
  have keys: "map canonical_code xs = map fst groups"
    unfolding xs_def by (rule grouped_keys [OF f])
  with inv have dx: "distinct (map canonical_code xs)" by simp
  then have d: "distinct (map canonical_code (group_by_canonical_code records))"
    unfolding res by (simp add: distinct_map)
  have "set (map canonical_code (group_by_canonical_code records)) = set (map canonical_code xs)"
    unfolding res by simp
  with keys inv have "set (map canonical_code (group_by_canonical_code records))
     = group_key ` set records"
    by simp
  with d show ?thesis by blast
qed

lemma replicate_numeral_unfold:
  "replicate (numeral v) x = x # replicate (numeral v - 1) x"
  by (simp add: numeral_eq_Suc)

lemmas group_eval =
  canonical_code_of_def ConditionRecord_init_def FhirCondition_init_def
  isoformat_def fmt_d_def dec.simps digit_char_def
  datetime_init_def group_key_def member_periods_def onset_pair_def
  sample_asthma_1_def sample_asthma_2_def replicate_numeral_unfold

lemma single_by_key:
  assumes "distinct (map h xs)" "set (map h xs) = {a}"
  obtains x where "xs = [x]" "h x = a"
proof (cases xs)
  case Nil
  with assms show ?thesis by simp
next
  case (Cons x ys)
  with assms have hx: "h x = a" by auto
  have "ys = []"
  proof (cases ys)
    case (Cons y zs)
    with assms \<open>xs = x # ys\<close> have "h y = a" "h y \<noteq> h x" by auto
    with hx show ?thesis by simp
  qed simp
  with Cons hx that show ?thesis by simp
qed

lemma group_flag_detect:
  assumes "g \<in> set (group_by_canonical_code records)"
  shows "has_overlapping_dates g \<longleftrightarrow>
           2 \<le> length (member_periods (filter (\<lambda>r. group_key r = canonical_code g) records)) \<and>
           detect_overlapping_onset_periods
             (member_periods (filter (\<lambda>r. group_key r = canonical_code g) records))"
proof -
  obtain groups periods where f: "foldl group_step ([], []) records = (groups, periods)"
    by (cases "foldl group_step ([], []) records")
  with assms have "g \<in> set (map snd (flag_overlaps groups periods))"
    by (simp add: group_by_canonical_code_def)
  then obtain k where "(k, g) \<in> set (flag_overlaps groups periods)"
    by auto
  from grouped_entries [OF f this] show ?thesis
    by blast
qed

lemma zone_group_flag:
  assumes keys: "group_key ` set rs = {k}"
    and members: "filter (\<lambda>r. group_key r = k) rs = rs"
    and two: "2 \<le> length (member_periods rs)"
  shows "map has_overlapping_dates (group_by_canonical_code rs)
           = [detect_overlapping_onset_periods (member_periods rs)]"
proof -
  from group_by_keys [of rs] keys obtain g where
    g: "group_by_canonical_code rs = [g]" "canonical_code g = k"
    by (elim conjE single_by_key [where h = canonical_code]) auto
  then have mem: "g \<in> set (group_by_canonical_code rs)" by simp
  from group_flag_detect [OF mem] g members two
  have "has_overlapping_dates g = detect_overlapping_onset_periods (member_periods rs)"
    by simp
  with g show ?thesis by simp
qed

lemmas zone_eval =
  canonical_code_of_def ConditionRecord_init_def FhirCondition_init_def
  group_key_def member_periods_def onset_pair_def
  sample_zone_1_def sample_zone_2_def sample_zone_3_def sample_zone_4_def

lemmas zone_iso_eval =
  isoformat_def format_offset_def fmt_d_def dec.simps digit_char_def
  datetime_init_def Let_def replicate_numeral_unfold

lemmas zone_time_eval =
  overlap_in_time_def onset_times_def instant_us_def wall_us_def toordinal_def
  days_before_year_def days_before_month_def is_leap_def datetime_init_def

subsection \<open>The order of ISO strings\<close>

text \<open>
  The onset periods are compared as the strings that \<open>isoformat\<close> returns. A number
  below \<open>10^w\<close> is printed with exactly \<open>w\<close> digits by \<open>%0wd\<close>, and the order of such
  strings is the order of the numbers.
\<close>

lemma fmt_d_rec:
  "fmt_d (Suc (Suc w)) n = fmt_d (Suc w) (n div 10) @ [digit_char (n mod 10)]"
proof (cases "n < 10")
  case True
  then have "dec n = [digit_char n]" "dec (n div 10) = [digit_char 0]"
    by (simp_all add: dec.simps)
  with True show ?thesis
    by (simp add: fmt_d_def digit_char_def replicate_append_same)
next
  case False
  then have "dec n = dec (n div 10) @ [digit_char (n mod 10)]"
    by (subst dec.simps) simp
  then show ?thesis
    by (simp add: fmt_d_def Let_def)
qed

lemma fmt_d_one: "n < 10 \<Longrightarrow> fmt_d (Suc 0) n = [digit_char n]"
  by (simp add: fmt_d_def dec.simps)

lemma length_fmt_d: "n < 10 ^ Suc w \<Longrightarrow> length (fmt_d (Suc w) n) = Suc w"
proof (induction w arbitrary: n)
  case 0
  then show ?case by (simp add: fmt_d_one)
next
  case (Suc w)
  from Suc.prems have "n div 10 < 10 ^ Suc w" by (simp add: less_mult_imp_div_less)
  from Suc.IH [OF this] show ?case by (simp add: fmt_d_rec)
qed

lemma digit_char_less:
  assumes "a < 10" "b < 10"
  shows "digit_char a < digit_char b \<longleftrightarrow> a < b" and "digit_char a = digit_char b \<longleftrightarrow> a = b"
proof -
  have a: "a \<in> {0, 1, 2, 3, 4, 5, 6, 7, 8, 9}" using assms(1) by auto
  have b: "b \<in> {0, 1, 2, 3, 4, 5, 6, 7, 8, 9}" using assms(2) by auto
  from a b show "digit_char a < digit_char b \<longleftrightarrow> a < b"
    by (auto simp: digit_char_def)
  from a b show "digit_char a = digit_char b \<longleftrightarrow> a = b"
    by (auto simp: digit_char_def)
qed

lemma append_less_same_length:
  "length xs = length ys \<Longrightarrow> (xs @ u < ys @ v \<longleftrightarrow> xs < ys \<or> (xs = ys \<and> u < v))"
  by (induction xs ys rule: list_induct2) auto

lemma div10_cases:
  fixes n m :: nat
  shows "(n < m \<longleftrightarrow> n div 10 < m div 10 \<or> (n div 10 = m div 10 \<and> n mod 10 < m mod 10)) \<and>
         (n = m \<longleftrightarrow> n div 10 = m div 10 \<and> n mod 10 = m mod 10)"
proof -
  define qn rn qm rm where "qn = n div 10" and "rn = n mod 10" and "qm = m div 10"
    and "rm = m mod 10"
  have "n = 10 * qn + rn" "m = 10 * qm + rm" "rn < 10" "rm < 10"
    by (simp_all add: qn_def rn_def qm_def rm_def)
  then have "(n < m \<longleftrightarrow> qn < qm \<or> (qn = qm \<and> rn < rm)) \<and> (n = m \<longleftrightarrow> qn = qm \<and> rn = rm)"
    by (cases "qn < qm"; cases "qm < qn") auto
  then show ?thesis
    by (simp only: qn_def rn_def qm_def rm_def)
qed

lemma fmt_d_less:
  assumes "n < 10 ^ Suc w" "m < 10 ^ Suc w"
  shows "(fmt_d (Suc w) n < fmt_d (Suc w) m \<longleftrightarrow> n < m) \<and>
         (fmt_d (Suc w) n = fmt_d (Suc w) m \<longleftrightarrow> n = m)"
  using assms
proof (induction w arbitrary: n m)
  case 0
  then have "n < 10" "m < 10" by simp_all
  then show ?case by (simp add: fmt_d_one digit_char_less)
next
  case (Suc w)
  from Suc.prems have d: "n div 10 < 10 ^ Suc w" "m div 10 < 10 ^ Suc w"
    by (simp_all add: less_mult_imp_div_less)
  note ih = Suc.IH [OF d]
  have len: "length (fmt_d (Suc w) (n div 10)) = length (fmt_d (Suc w) (m div 10))"
    using d by (simp add: length_fmt_d)
  have md: "n mod 10 < 10" "m mod 10 < 10" by simp_all
  note dc = digit_char_less [OF md]
  have l: "fmt_d (Suc (Suc w)) n < fmt_d (Suc (Suc w)) m \<longleftrightarrow>
        n div 10 < m div 10 \<or> (n div 10 = m div 10 \<and> n mod 10 < m mod 10)"
    unfolding fmt_d_rec append_less_same_length [OF len] using ih dc by simp
  have e: "fmt_d (Suc (Suc w)) n = fmt_d (Suc (Suc w)) m \<longleftrightarrow>
        n div 10 = m div 10 \<and> n mod 10 = m mod 10"
    unfolding fmt_d_rec using ih dc by simp
  from l e div10_cases [of n m] show ?case by blast
qed

lemma fmt_d_field:
  assumes "n < 10 ^ Suc w" "m < 10 ^ Suc w"
  shows "fmt_d (Suc w) n @ u < fmt_d (Suc w) m @ v \<longleftrightarrow> n < m \<or> (n = m \<and> u < v)"
proof -
  have "length (fmt_d (Suc w) n) = length (fmt_d (Suc w) m)"
    using assms by (simp add: length_fmt_d)
  from append_less_same_length [OF this] fmt_d_less [OF assms] show ?thesis
    by simp
qed

text \<open>
  So the ISO strings of two naive values are ordered as their calendar fields are, from the
  year down to the microsecond.
\<close>

lemma isoformat_less_naive:
  assumes na: "utcoffset a = None" and nb: "utcoffset b = None"
    and ra: "year a < 10000" "month a < 100" "day a < 100" "hour a < 100" "minute a < 100"
      "second a < 100" "microsecond a < 1000000"
    and rb: "year b < 10000" "month b < 100" "day b < 100" "hour b < 100" "minute b < 100"
      "second b < 100" "microsecond b < 1000000"
  shows "isoformat a < isoformat b \<longleftrightarrow>
           [year a, month a, day a, hour a, minute a, second a, microsecond a]
           < [year b, month b, day b, hour b, minute b, second b, microsecond b]"
proof -
  note f4 = fmt_d_field [where w = 3, simplified]
  have f2: "fmt_d 2 n @ u < fmt_d 2 m @ v \<longleftrightarrow> n < m \<or> (n = m \<and> u < v)"
    if "n < 100" "m < 100" for n m u v
    using fmt_d_field [where w = 1 and n = n and m = m and u = u and v = v] that
    by (simp add: numeral_2_eq_2)
  note f6 = fmt_d_less [where w = 5, simplified]
  define fa where "fa = (if microsecond a \<noteq> 0 then ''.'' @ fmt_d 6 (microsecond a) else [])"
  define fb where "fb = (if microsecond b \<noteq> 0 then ''.'' @ fmt_d 6 (microsecond b) else [])"
  have frac: "fa < fb \<longleftrightarrow> microsecond a < microsecond b"
    unfolding fa_def fb_def using f6 [OF ra(7) rb(7)] by auto
  have ia: "isoformat a = fmt_d 4 (year a) @ CHR ''-'' # fmt_d 2 (month a) @ CHR ''-'' #
      fmt_d 2 (day a) @ CHR ''T'' # fmt_d 2 (hour a) @ CHR '':'' # fmt_d 2 (minute a) @
      CHR '':'' # fmt_d 2 (second a) @ fa"
    by (simp add: isoformat_def na fa_def)
  have ib: "isoformat b = fmt_d 4 (year b) @ CHR ''-'' # fmt_d 2 (month b) @ CHR ''-'' #
      fmt_d 2 (day b) @ CHR ''T'' # fmt_d 2 (hour b) @ CHR '':'' # fmt_d 2 (minute b) @
      CHR '':'' # fmt_d 2 (second b) @ fb"
    by (simp add: isoformat_def nb fb_def)
  show ?thesis
    unfolding ia ib
    by (simp add: f4 [OF ra(1) rb(1)] f2 [OF ra(2) rb(2)] f2 [OF ra(3) rb(3)]
        f2 [OF ra(4) rb(4)] f2 [OF ra(5) rb(5)] f2 [OF ra(6) rb(6)] frac)
qed

text \<open>
  For aware values of different offsets the order of the strings need not be the order
  in time: 20:00 at offset zero is two hours later than 23:00 at offset +05:00, and its
  string is the smaller one.
\<close>

lemma isoformat_order_mixed_offsets:
  "isoformat ((datetime_init 2020 1 1 20 0 0)\<lparr>utcoffset := Some 0\<rparr>)
     < isoformat ((datetime_init 2020 1 1 23 0 0)\<lparr>utcoffset := Some (5 * 3600000000)\<rparr>) \<and>
   datetime_sub ((datetime_init 2020 1 1 20 0 0)\<lparr>utcoffset := Some 0\<rparr>)
     ((datetime_init 2020 1 1 23 0 0)\<lparr>utcoffset := Some (5 * 3600000000)\<rparr>)
     = Inr (2 * 3600000000)"
  by (simp add: isoformat_def format_offset_def fmt_d_def dec.simps digit_char_def
      datetime_init_def datetime_sub_def wall_us_def toordinal_def days_before_year_def
      days_before_month_def is_leap_def Let_def replicate_numeral_unfold)

subsection \<open>Overlap detection and group keys\<close>

text \<open>
  C4 (amended). For every group that \<open>group_by_canonical_code\<close> returns, with its members
  the records of the input that have the canonical code of the group: the encounter count
  is the number of members, and \<open>has_overlapping_dates\<close> holds exactly when the members
  with both onset dates give two or more (start, end) pairs and, in these pairs sorted by
  start, the start of some pair is below the end of the pair just before it, where the
  pairs are the ISO-8601 strings of the dates and both the sorting and the comparison are
  the lexicographic order of these strings, not the order of the dates in time. The two
  orders agree on naive dates (\<open>isoformat_less_naive\<close>) and differ on dates with
  different offsets from UTC (\<open>isoformat_order_mixed_offsets\<close>). A group with fewer than
  two pairs is not flagged. Two records coded \<open>J45.909\<close> with onsets 2020-01-01 to
  2020-06-01 and 2020-03-01 to 2020-09-01 form one group of encounter count 2 that is
  flagged.
\<close>

theorem overlap_flag_iff:
  assumes "g \<in> set (group_by_canonical_code records)"
  shows "(let members = filter (\<lambda>r. group_key r = canonical_code g) records;
              ps = member_periods members;
              sp = sort_key fst ps
          in members \<noteq> [] \<and>
             encounter_count g = length members \<and>
             (has_overlapping_dates g \<longleftrightarrow>
                2 \<le> length ps \<and>
                (\<exists>i. 1 \<le> i \<and> i < length sp \<and> fst (sp ! i) < snd (sp ! (i - 1)))) \<and>
             (length ps < 2 \<longrightarrow> \<not> has_overlapping_dates g))"
proof -
  obtain groups periods where f: "foldl group_step ([], []) records = (groups, periods)"
    by (cases "foldl group_step ([], []) records")
  with assms have "g \<in> set (map snd (flag_overlaps groups periods))"
    by (simp add: group_by_canonical_code_def)
  then obtain k where "(k, g) \<in> set (flag_overlaps groups periods)"
    by auto
  from grouped_entries [OF f this] have k: "canonical_code g = k"
    and kin: "k \<in> group_key ` set records"
    and cnt: "encounter_count g = length (filter (\<lambda>r. group_key r = k) records)"
    and ov: "has_overlapping_dates g \<longleftrightarrow>
            2 \<le> length (member_periods (filter (\<lambda>r. group_key r = k) records)) \<and>
            detect_overlapping_onset_periods
              (member_periods (filter (\<lambda>r. group_key r = k) records))"
    by blast+
  from kin have ne: "filter (\<lambda>r. group_key r = k) records \<noteq> []"
    by (auto simp: filter_empty_conv)
  show ?thesis
    unfolding Let_def k using ne cnt ov
    by (auto simp: detect_overlapping_iff)
qed

theorem overlap_flag_iff_witness:
  "\<exists>g. group_by_canonical_code [sample_asthma_1, sample_asthma_2] = [g] \<and>
       canonical_code g = ''J45.909'' \<and> encounter_count g = 2 \<and> has_overlapping_dates g"
proof -
  let ?rs = "[sample_asthma_1, sample_asthma_2]"
  have keys: "group_key ` set ?rs = {''J45.909''}"
    by (simp add: group_eval)
  from group_by_keys [of ?rs] keys obtain g where
    g: "group_by_canonical_code ?rs = [g]" "canonical_code g = ''J45.909''"
    by (elim conjE single_by_key [where h = canonical_code]) auto
  then have mem: "g \<in> set (group_by_canonical_code ?rs)" by simp
  have members: "filter (\<lambda>r. group_key r = canonical_code g) ?rs = ?rs"
    by (simp add: g group_eval)
  have ps: "member_periods ?rs =
     [(''2020-01-01T00:00:00'', ''2020-06-01T00:00:00''),
      (''2020-03-01T00:00:00'', ''2020-09-01T00:00:00'')]"
    by (simp add: group_eval)
  have sp: "sort_key fst (member_periods ?rs) = member_periods ?rs"
    unfolding ps by simp
  have hit: "\<exists>i. 1 \<le> i \<and> i < length (member_periods ?rs) \<and>
       fst (member_periods ?rs ! i) < snd (member_periods ?rs ! (i - 1))"
    unfolding ps by (rule exI [of _ 1]) simp
  from overlap_flag_iff [OF mem] members sp hit ps
  have "encounter_count g = 2 \<and> has_overlapping_dates g"
    by (simp add: Let_def)
  with g show ?thesis by blast
qed

text \<open>
  Read in time, the flag is wrong in both directions. The onsets from 20:00 to 22:00 at
  offset zero and from 23:00 to 02:00 at offset +05:00 (18:00 to 21:00 at offset zero)
  overlap in time, and their group is not flagged; the onsets from 10:00 to 11:00 at
  offset -05:00 (15:00 to 16:00 at offset zero) and from 10:30 to 10:45 at offset zero do
  not overlap in time, and their group is flagged.
\<close>

theorem overlap_flag_counterexample:
  "map has_overlapping_dates (group_by_canonical_code [sample_zone_1, sample_zone_2]) = [False] \<and>
   length (onset_times [sample_zone_1, sample_zone_2]) = 2 \<and>
   overlap_in_time (onset_times [sample_zone_1, sample_zone_2]) \<and>
   map has_overlapping_dates (group_by_canonical_code [sample_zone_3, sample_zone_4]) = [True] \<and>
   length (onset_times [sample_zone_3, sample_zone_4]) = 2 \<and>
   \<not> overlap_in_time (onset_times [sample_zone_3, sample_zone_4])"
proof -
  have ps12: "member_periods [sample_zone_1, sample_zone_2] =
     [(''2020-01-01T20:00:00+00:00'', ''2020-01-01T22:00:00+00:00''),
      (''2020-01-01T23:00:00+05:00'', ''2020-01-02T02:00:00+05:00'')]"
    by (simp add: zone_eval zone_iso_eval)
  have ps34: "member_periods [sample_zone_3, sample_zone_4] =
     [(''2020-01-01T10:00:00-05:00'', ''2020-01-01T11:00:00-05:00''),
      (''2020-01-01T10:30:00+00:00'', ''2020-01-01T10:45:00+00:00'')]"
    by (simp add: zone_eval zone_iso_eval)
  have d12: "\<not> detect_overlapping_onset_periods (member_periods [sample_zone_1, sample_zone_2])"
    unfolding ps12 by (simp add: detect_overlapping_onset_periods_def overlap_loop.simps)
  have d34: "detect_overlapping_onset_periods (member_periods [sample_zone_3, sample_zone_4])"
    unfolding ps34 by (simp add: detect_overlapping_onset_periods_def overlap_loop.simps)
  have k12: "group_key ` set [sample_zone_1, sample_zone_2] = {''J45.909''}"
    and m12: "filter (\<lambda>r. group_key r = ''J45.909'') [sample_zone_1, sample_zone_2]
      = [sample_zone_1, sample_zone_2]"
    and k34: "group_key ` set [sample_zone_3, sample_zone_4] = {''J45.909''}"
    and m34: "filter (\<lambda>r. group_key r = ''J45.909'') [sample_zone_3, sample_zone_4]
      = [sample_zone_3, sample_zone_4]"
    by (simp_all add: zone_eval)
  have l12: "2 \<le> length (member_periods [sample_zone_1, sample_zone_2])"
    and l34: "2 \<le> length (member_periods [sample_zone_3, sample_zone_4])"
    by (simp_all add: ps12 ps34)
  have f12: "map has_overlapping_dates (group_by_canonical_code [sample_zone_1, sample_zone_2])
      = [False]"
    using zone_group_flag [OF k12 m12 l12] d12 by simp
  have f34: "map has_overlapping_dates (group_by_canonical_code [sample_zone_3, sample_zone_4])
      = [True]"
    using zone_group_flag [OF k34 m34 l34] d34 by simp
  have n12: "length (onset_times [sample_zone_1, sample_zone_2]) = 2"
    and n34: "length (onset_times [sample_zone_3, sample_zone_4]) = 2"
    by (simp_all add: onset_times_def sample_zone_1_def sample_zone_2_def
        sample_zone_3_def sample_zone_4_def)
  have o12: "overlap_in_time (onset_times [sample_zone_1, sample_zone_2])"
    by (simp add: zone_time_eval sample_zone_1_def sample_zone_2_def)
  have o34: "\<not> overlap_in_time (onset_times [sample_zone_3, sample_zone_4])"
    by (simp add: zone_time_eval sample_zone_3_def sample_zone_4_def)
  from f12 f34 n12 n34 o12 o34 show ?thesis
    by simp
qed

text \<open>
  C5. The canonical code of a record is a member of its ICD-10 codes when there are any,
  else a member of its SNOMED codes, else a member of its ICD-9 codes, each with the label
  of the system, and else the lower-cased display name with the label \<open>text\<close>, whatever
  its IMO codes. The groups of \<open>group_by_canonical_code\<close> have pairwise different
  canonical codes, which are exactly the canonical codes of the records, so every record
  falls under the group of its canonical code: a record without ICD-10, SNOMED and ICD-9
  codes under its lower-cased display name.
\<close>

theorem canonical_code_priority:
  "(icd10_codes r \<noteq> [] \<longrightarrow>
      fst (canonical_code_of r) \<in> set (icd10_codes r) \<and> snd (canonical_code_of r) = ''ICD-10'') \<and>
   (icd10_codes r = [] \<and> snomed_codes r \<noteq> [] \<longrightarrow>
      fst (canonical_code_of r) \<in> set (snomed_codes r) \<and> snd (canonical_code_of r) = ''SNOMED'') \<and>
   (icd10_codes r = [] \<and> snomed_codes r = [] \<and> icd9_codes r \<noteq> [] \<longrightarrow>
      fst (canonical_code_of r) \<in> set (icd9_codes r) \<and> snd (canonical_code_of r) = ''ICD-9'') \<and>
   (icd10_codes r = [] \<and> snomed_codes r = [] \<and> icd9_codes r = [] \<longrightarrow>
      canonical_code_of r = (lower (display_name r), ''text'')) \<and>
   distinct (map canonical_code (group_by_canonical_code records)) \<and>
   set (map canonical_code (group_by_canonical_code records))
     = (\<lambda>r. fst (canonical_code_of r)) ` set records \<and>
   (r \<in> set records \<longrightarrow>
      (\<exists>g \<in> set (group_by_canonical_code records).
          canonical_code g = fst (canonical_code_of r) \<and>
          (icd10_codes r = [] \<and> snomed_codes r = [] \<and> icd9_codes r = [] \<longrightarrow>
             canonical_code g = lower (display_name r))))"
proof -
  from group_by_keys [of records]
  have d: "distinct (map canonical_code (group_by_canonical_code records))"
    and s: "set (map canonical_code (group_by_canonical_code records))
     = (\<lambda>r. fst (canonical_code_of r)) ` set records"
    by (simp_all add: group_key_def [abs_def])
  have m: "\<exists>g \<in> set (group_by_canonical_code records).
          canonical_code g = fst (canonical_code_of r) \<and>
          (icd10_codes r = [] \<and> snomed_codes r = [] \<and> icd9_codes r = [] \<longrightarrow>
             canonical_code g = lower (display_name r))"
    if "r \<in> set records"
  proof -
    from that s have "fst (canonical_code_of r)
        \<in> set (map canonical_code (group_by_canonical_code records))"
      by blast
    then obtain g where "g \<in> set (group_by_canonical_code records)"
      "canonical_code g = fst (canonical_code_of r)"
      by auto
    then show ?thesis
      by (auto simp: canonical_code_of_def)
  qed
  have p: "(icd10_codes r \<noteq> [] \<longrightarrow>
      fst (canonical_code_of r) \<in> set (icd10_codes r) \<and> snd (canonical_code_of r) = ''ICD-10'') \<and>
   (icd10_codes r = [] \<and> snomed_codes r \<noteq> [] \<longrightarrow>
      fst (canonical_code_of r) \<in> set (snomed_codes r) \<and> snd (canonical_code_of r) = ''SNOMED'') \<and>
   (icd10_codes r = [] \<and> snomed_codes r = [] \<and> icd9_codes r \<noteq> [] \<longrightarrow>
      fst (canonical_code_of r) \<in> set (icd9_codes r) \<and> snd (canonical_code_of r) = ''ICD-9'') \<and>
   (icd10_codes r = [] \<and> snomed_codes r = [] \<and> icd9_codes r = [] \<longrightarrow>
      canonical_code_of r = (lower (display_name r), ''text''))"
    by (simp add: canonical_code_of_def)
  from p d s m show ?thesis by blast
qed

theorem canonical_code_priority_witness:
  "canonical_code_of
     ((ConditionRecord_init ''m1'' (FhirCondition_init ''m1''))
        \<lparr>imo_codes := [''769365''], all_codes := [''769365''], display_name := ''Chronic Cough''\<rparr>)
     = (''chronic cough'', ''text'') \<and>
   (\<exists>g \<in> set (group_by_canonical_code
        [(ConditionRecord_init ''m1'' (FhirCondition_init ''m1''))
           \<lparr>imo_codes := [''769365''], all_codes := [''769365''],
            display_name := ''Chronic Cough''\<rparr>]).
      canonical_code g = ''chronic cough'') \<and>
   fst (canonical_code_of sample_asthma_1) \<in> set (icd10_codes sample_asthma_1)"
proof -
  define r where "r = (ConditionRecord_init ''m1'' (FhirCondition_init ''m1''))
        \<lparr>imo_codes := [''769365''], all_codes := [''769365''], display_name := ''Chronic Cough''\<rparr>"
  have h: "icd10_codes r = [] \<and> snomed_codes r = [] \<and> icd9_codes r = []" "r \<in> set [r]"
    by (simp_all add: r_def ConditionRecord_init_def)
  have l: "lower (display_name r) = ''chronic cough''"
    by (simp add: r_def lower_def lower_char_def)
  have a: "icd10_codes sample_asthma_1 \<noteq> []"
    by (simp add: sample_asthma_1_def)
  from canonical_code_priority [of r "[r]"] h l
  have "canonical_code_of r = (''chronic cough'', ''text'') \<and>
        (\<exists>g \<in> set (group_by_canonical_code [r]). canonical_code g = ''chronic cough'')"
    by auto
  moreover from canonical_code_priority [of sample_asthma_1 "[]"] a
  have "fst (canonical_code_of sample_asthma_1) \<in> set (icd10_codes sample_asthma_1)"
    by blast
  ultimately show ?thesis unfolding r_def by blast
qed

end
